theory Spec2Isabelle
  imports Complex_Main "HOL-Library.Word"
begin

unbundle bit_operations_syntax

section \<open>JavaScript strings\<close>

text \<open>
  A JavaScript string is a sequence of UTF-16 code units; \<open>length\<close>, \<open>slice\<close> and
  template concatenation all work on code units. The ellipsis used by the text
  measurer is the single code unit U+2026.
\<close>

type_synonym jsstring = "16 word list"

definition js :: "string \<Rightarrow> jsstring" where
  "js s = map (\<lambda>c. of_nat (of_char c)) s"

definition ellipsis :: "16 word" where
  "ellipsis = 0x2026"

section \<open>Text measurer\<close>

text \<open>
  \<open>textMetrics.measure\<close> delegates to the canvas of the browser, so it is a parameter
  \<open>msr text font\<close> of the model; widths live in any linear order.

  The \<open>while\<close> loop of \<open>truncateTextToFit\<close>: as long as the candidate is not empty and
  the candidate followed by the ellipsis is wider than \<open>maxWidth\<close>, drop the last
  code unit (\<open>slice(0, -1)\<close>).
\<close>

function truncate_loop ::
  "(jsstring \<Rightarrow> jsstring \<Rightarrow> 'w::linorder) \<Rightarrow> 'w \<Rightarrow> jsstring \<Rightarrow> jsstring \<Rightarrow> jsstring" where
  "truncate_loop msr maxWidth font truncated =
     (if length truncated > 0 \<and> msr (truncated @ [ellipsis]) font > maxWidth
      then truncate_loop msr maxWidth font (butlast truncated)
      else truncated)"
  by pat_completeness auto
termination
  by (relation "measure (\<lambda>(msr, maxWidth, font, truncated). length truncated)") auto

declare truncate_loop.simps [simp del]

definition truncateTextToFit ::
  "(jsstring \<Rightarrow> jsstring \<Rightarrow> 'w::linorder) \<Rightarrow> jsstring \<Rightarrow> 'w \<Rightarrow> jsstring \<Rightarrow> jsstring" where
  "truncateTextToFit msr text maxWidth font =
     (if msr text font \<le> maxWidth then text
      else truncate_loop msr maxWidth font text @ [ellipsis])"

text \<open>
  A measure that adds up per-code-unit advances, used for concrete runs: every code
  unit is 10 wide, the ellipsis 5.
\<close>

definition advance_measure :: "jsstring \<Rightarrow> jsstring \<Rightarrow> real" where
  "advance_measure text font = sum_list (map (\<lambda>c. if c = ellipsis then 5 else 10) text)"

section \<open>Visual graph and graph merge\<close>

text \<open>
  The visual graph lives in the rendering engine (\<open>cy\<close>). The engine indexes its
  elements by id, so the store is a map from ids to elements. An element carries its
  group and its data object; the data keys the controller ever writes are the fields
  below, an absent key (or \<open>undefined\<close>) is \<open>None\<close>.
\<close>

datatype group = Nodes | Edges

record element =
  eid :: jsstring
  grp :: group
  name :: "jsstring option"
  description :: "jsstring option"
  displayName :: "jsstring option"
  fontSize :: "nat option"
  source :: "jsstring option"
  target :: "jsstring option"
  label :: "jsstring option"

type_synonym cy = "jsstring \<rightharpoonup> element"

text \<open>Node and edge objects of a payload, and the payload itself (\<open>graphData\<close>).\<close>

record node_payload =
  node_id :: jsstring
  node_name :: "jsstring option"
  node_description :: "jsstring option"

record edge_payload =
  source_id :: jsstring
  target_id :: jsstring
  edge_label :: jsstring

record graphData =
  nodes :: "node_payload list option"
  edges :: "edge_payload list option"

text \<open>\<open>String.prototype.trim\<close>: white space and line terminators are dropped at both ends.\<close>

definition js_whitespace :: "16 word \<Rightarrow> bool" where
  "js_whitespace c \<longleftrightarrow>
     c \<in> {0x09, 0x0A, 0x0B, 0x0C, 0x0D, 0x20, 0xA0, 0x1680, 0x2028, 0x2029,
          0x202F, 0x205F, 0x3000, 0xFEFF}
     \<or> (0x2000 \<le> c \<and> c \<le> 0x200A)"

definition trim :: "jsstring \<Rightarrow> jsstring" where
  "trim s = rev (dropWhile js_whitespace (rev (dropWhile js_whitespace s)))"

text \<open>
  \<open>computeNodeVisuals(rawName)\<close>: a missing or empty name becomes \<open>Untitled\<close>, is
  trimmed and truncated to 94 pixels in the font \<open>600 16px "Segoe UI"\<close>.
\<close>

definition computeNodeVisuals ::
  "(jsstring \<Rightarrow> jsstring \<Rightarrow> real) \<Rightarrow> jsstring option \<Rightarrow> jsstring \<times> nat" where
  "computeNodeVisuals msr rawName =
     (let nm = trim (case rawName of None \<Rightarrow> js ''Untitled''
                     | Some r \<Rightarrow> if r = [] then js ''Untitled'' else r);
          fontSize = 16;
          font = js ''600 16px \"Segoe UI\"'';
          maxTextWidth = 94;
          displayName = truncateTextToFit msr nm maxTextWidth font
      in (displayName, fontSize))"

text \<open>The data object built for an incoming node; pushed as \<open>{ data }\<close> it is a node.\<close>

definition node_data :: "(jsstring \<Rightarrow> jsstring \<Rightarrow> real) \<Rightarrow> node_payload \<Rightarrow> element" where
  "node_data msr node =
     (let visuals = computeNodeVisuals msr (node_name node)
      in \<lparr> eid = node_id node, grp = Nodes,
           name = node_name node, description = node_description node,
           displayName = Some (fst visuals), fontSize = Some (snd visuals),
           source = None, target = None, label = None \<rparr>)"

text \<open>
  \<open>existingNode.data(data)\<close>: the engine writes every key of the object into the
  element's data except the immutable ones (\<open>id\<close>, \<open>source\<close>, \<open>target\<close>, \<open>parent\<close>);
  keys that the object does not have are left alone.
\<close>

definition set_data :: "element \<Rightarrow> element \<Rightarrow> element" where
  "set_data d e = e\<lparr> name := name d, description := description d,
                     displayName := displayName d, fontSize := fontSize d \<rparr>"

text \<open>
  One round of the node loop: \<open>cy.getElementById(node.id)\<close> is the lookup in the map;
  an element found by the id is overwritten in place, otherwise the new element is
  pushed onto \<open>elementsToAdd\<close>.
\<close>

definition merge_node ::
  "(jsstring \<Rightarrow> jsstring \<Rightarrow> real) \<Rightarrow> node_payload \<Rightarrow> cy \<times> element list \<Rightarrow> cy \<times> element list" where
  "merge_node msr node st =
     (let g = fst st; elementsToAdd = snd st; d = node_data msr node
      in case g (node_id node) of
           Some existingNode \<Rightarrow> (g(node_id node \<mapsto> set_data d existingNode), elementsToAdd)
         | None \<Rightarrow> (g, elementsToAdd @ [d]))"

text \<open>The composite edge id: source, target and label joined by \<open>-\<close>.\<close>

definition edge_id :: "edge_payload \<Rightarrow> jsstring" where
  "edge_id edge = source_id edge @ js ''-'' @ target_id edge @ js ''-'' @ edge_label edge"

definition edge_data :: "edge_payload \<Rightarrow> element" where
  "edge_data edge =
     \<lparr> eid = edge_id edge, grp = Edges,
       name = None, description = None, displayName = None, fontSize = None,
       source = Some (source_id edge), target = Some (target_id edge),
       label = Some (edge_label edge) \<rparr>"

text \<open>
  One round of the edge loop, with the set \<open>seenEdgeIds\<close>: an id seen before in this
  call is skipped; otherwise it is recorded, and the edge is skipped when the graph
  already has an element of that id, pushed otherwise.
\<close>

definition merge_edge ::
  "cy \<Rightarrow> edge_payload \<Rightarrow> jsstring set \<times> element list \<Rightarrow> jsstring set \<times> element list" where
  "merge_edge g edge st =
     (let seenEdgeIds = fst st; elementsToAdd = snd st; edgeId = edge_id edge
      in if edgeId \<in> seenEdgeIds then (seenEdgeIds, elementsToAdd)
         else if g edgeId \<noteq> None then (insert edgeId seenEdgeIds, elementsToAdd)
         else (insert edgeId seenEdgeIds, elementsToAdd @ [edge_data edge]))"

text \<open>
  \<open>cy.add(elementsToAdd)\<close>, a call into the graph engine. The engine first builds the
  elements of the batch, silently leaving out one whose id the graph or an earlier
  element of the batch already has; then it restores them in order, nodes before edges
  (the list built by \<open>mergeGraph\<close> already has all nodes before all edges). Restoring
  throws at an element whose id is the empty string and at an edge whose source or
  target is unspecified or names no element of the graph; the elements restored before
  stay in the graph, the ones after it are never added, and the error leaves
  \<open>cy.add\<close>. On a batch with the nodes first the two passes are the single pass
  below, since every earlier element that was not left out has been stored when the
  next one is looked at. The result is the error, if any, and the graph.
\<close>

datatype engine_error = Invalid_id jsstring | Missing_endpoint jsstring

definition endpoint_missing :: "cy \<Rightarrow> jsstring option \<Rightarrow> bool" where
  "endpoint_missing g v = (case v of None \<Rightarrow> True | Some i \<Rightarrow> i = [] \<or> g i = None)"

fun cy_add :: "element list \<Rightarrow> cy \<Rightarrow> engine_error option \<times> cy" where
  "cy_add [] g = (None, g)"
| "cy_add (e # elementsToAdd) g =
     (if g (eid e) \<noteq> None then cy_add elementsToAdd g
      else if eid e = [] then (Some (Invalid_id (eid e)), g)
      else if grp e = Edges \<and> (endpoint_missing g (source e) \<or> endpoint_missing g (target e))
      then (Some (Missing_endpoint (eid e)), g)
      else cy_add elementsToAdd (g(eid e \<mapsto> e)))"

text \<open>
  \<open>mergeGraph(graphData)\<close>: nothing happens for a missing payload; missing \<open>nodes\<close> or
  \<open>edges\<close> count as empty lists. The node loop runs first, the edge loop looks ids
  up in the graph as the node loop left it, and all queued elements are added in one
  batch (\<open>cy.add\<close> is only called for a non-empty queue). \<open>mergeGraph\<close> catches
  nothing: an error thrown by the engine leaves the function, after the node loop has
  updated the existing nodes and the engine has stored the elements before the refused
  one. The result is the error, if any, and the graph as the call leaves it.
\<close>

definition payload_nodes :: "graphData \<Rightarrow> node_payload list" where
  "payload_nodes graphData = (case nodes graphData of None \<Rightarrow> [] | Some ns \<Rightarrow> ns)"

definition payload_edges :: "graphData \<Rightarrow> edge_payload list" where
  "payload_edges graphData = (case edges graphData of None \<Rightarrow> [] | Some es \<Rightarrow> es)"

definition node_loop ::
  "(jsstring \<Rightarrow> jsstring \<Rightarrow> real) \<Rightarrow> node_payload list \<Rightarrow> cy \<Rightarrow> cy \<times> element list" where
  "node_loop msr ns g = fold (merge_node msr) ns (g, [])"

definition edge_loop :: "cy \<Rightarrow> edge_payload list \<Rightarrow> element list \<Rightarrow> element list" where
  "edge_loop g es elementsToAdd = snd (fold (merge_edge g) es ({}, elementsToAdd))"

definition merge_queue ::
  "(jsstring \<Rightarrow> jsstring \<Rightarrow> real) \<Rightarrow> graphData \<Rightarrow> cy \<Rightarrow> element list" where
  "merge_queue msr graphData g =
     (let st = node_loop msr (payload_nodes graphData) g
      in edge_loop (fst st) (payload_edges graphData) (snd st))"

definition mergeGraph ::
  "(jsstring \<Rightarrow> jsstring \<Rightarrow> real) \<Rightarrow> graphData option \<Rightarrow> cy \<Rightarrow> engine_error option \<times> cy" where
  "mergeGraph msr graphData g =
     (case graphData of
        None \<Rightarrow> (None, g)
      | Some gd \<Rightarrow>
          (let st = node_loop msr (payload_nodes gd) g;
               elementsToAdd = edge_loop (fst st) (payload_edges gd) (snd st)
           in if elementsToAdd \<noteq> [] then cy_add elementsToAdd (fst st) else (None, fst st)))"

text \<open>
  Auxiliary notions for the properties of the merge: the visual graph a call leaves
  behind, whether it returned or threw (every caller runs \<open>mergeGraph\<close> inside
  \<open>runTask\<close>, which catches the error, so the page goes on with that graph), and the
  graph after a sequence of calls; the graph the node loop leaves behind in closed
  form (every element found by the id of some payload node carries the data of the
  last such node); conditions on a payload; the key invariant of edges; and sample
  payloads.
\<close>

definition graph_after ::
  "(jsstring \<Rightarrow> jsstring \<Rightarrow> real) \<Rightarrow> graphData option \<Rightarrow> cy \<Rightarrow> cy" where
  "graph_after msr graphData g = snd (mergeGraph msr graphData g)"

definition merge_all ::
  "(jsstring \<Rightarrow> jsstring \<Rightarrow> real) \<Rightarrow> graphData option list \<Rightarrow> cy \<Rightarrow> cy" where
  "merge_all msr ps g = fold (graph_after msr) ps g"

definition node_loop_graph :: "(jsstring \<Rightarrow> jsstring \<Rightarrow> real) \<Rightarrow> node_payload list \<Rightarrow> cy \<Rightarrow> cy" where
  "node_loop_graph msr ns g =
     (\<lambda>i. case g i of None \<Rightarrow> None
          | Some e \<Rightarrow> (case find (\<lambda>n. node_id n = i) (rev ns) of
                        None \<Rightarrow> Some e
                      | Some n \<Rightarrow> Some (set_data (node_data msr n) e)))"

definition node_ids_consistent :: "node_payload list \<Rightarrow> bool" where
  "node_ids_consistent ns \<longleftrightarrow> (\<forall>n\<in>set ns. \<forall>n'\<in>set ns. node_id n = node_id n' \<longrightarrow> n = n')"




definition node_x_A :: node_payload where
  "node_x_A = \<lparr> node_id = js ''x'', node_name = Some (js ''A''), node_description = Some (js ''first'') \<rparr>"

definition node_x_B :: node_payload where
  "node_x_B = \<lparr> node_id = js ''x'', node_name = Some (js ''B''), node_description = Some (js ''second'') \<rparr>"

definition duplicate_node_payload :: graphData where
  "duplicate_node_payload = \<lparr> nodes = Some [node_x_A, node_x_B], edges = Some [] \<rparr>"

definition node_a :: node_payload where
  "node_a = \<lparr> node_id = js ''a'', node_name = Some (js ''Alpha''), node_description = Some (js ''first node'') \<rparr>"

definition node_b :: node_payload where
  "node_b = \<lparr> node_id = js ''b'', node_name = Some (js ''Beta''), node_description = None \<rparr>"

definition edge_a_b_relates :: edge_payload where
  "edge_a_b_relates = \<lparr> source_id = js ''a'', target_id = js ''b'', edge_label = js ''relates'' \<rparr>"

definition sample_payload :: graphData where
  "sample_payload = \<lparr> nodes = Some [node_a, node_b], edges = Some [edge_a_b_relates, edge_a_b_relates] \<rparr>"

definition stale_a :: element where
  "stale_a = \<lparr> eid = js ''a'', grp = Nodes, name = Some (js ''Old''), description = None,
               displayName = Some (js ''Old''), fontSize = Some 16,
               source = None, target = None, label = None \<rparr>"

definition stale_graph :: cy where
  "stale_graph = [js ''a'' \<mapsto> stale_a]"

definition only_b_payload :: graphData where
  "only_b_payload = \<lparr> nodes = Some [node_b], edges = None \<rparr>"

definition lone_edge_payload :: graphData where
  "lone_edge_payload = \<lparr> nodes = None, edges = Some [edge_a_b_relates] \<rparr>"



section \<open>Overlay state and backend health\<close>

text \<open>
  The page script exists in several revisions. Two of them differ in the health
  logic: the revision that probes with \<open>pingBackend\<close> (a plain liveness check), and
  the revision that probes with \<open>checkBackendStatus\<close> and waits for the database as
  well. Functions whose text differs between the two take the revision as a parameter.
\<close>

datatype variant = Ping_check | Status_check

text \<open>
  The browser's timer table maps the handles returned by \<open>setInterval\<close> and
  \<open>setTimeout\<close> to their callbacks; handles are positive and never reused.
\<close>

datatype timer_callback =
  UpdateBackendWaitMessage | UpdateDatabaseWaitMessage | HealthCheck | TransientExpire

text \<open>
  The mutable state of the page: \<open>overlayState\<close> (task, backend, database and
  transient parts), \<open>backendWaitState\<close>, \<open>databaseWaitState\<close>,
  \<open>backendHealthCheckIntervalId\<close>, the two DOM properties the overlay writes
  (the \<open>hidden\<close> class of the overlay and the text of its paragraph) and the timer
  table. \<open>null\<close> is \<open>None\<close>. The database fields exist in the \<open>Status_check\<close>
  revision only; the other revision never touches them. \<open>taskDepth\<close> and the timer
  handles are JavaScript numbers used as counters; they stay far below \<open>2^53\<close>, where
  such numbers are exact integers, so they are integers here.
\<close>

record page =
  taskDepth :: int
  taskMessage :: jsstring
  backend_active :: bool
  backend_message :: jsstring
  database_active :: bool
  database_message :: jsstring
  transient_active :: bool
  transient_message :: jsstring
  transient_timeoutId :: "nat option"
  backendWait_active :: bool
  backendWait_timerId :: "nat option"
  backendWait_startTime :: "int option"
  backendWait_baseMessage :: jsstring
  databaseWait_active :: bool
  databaseWait_timerId :: "nat option"
  databaseWait_startTime :: "int option"
  databaseWait_baseMessage :: jsstring
  backendHealthCheckIntervalId :: "nat option"
  overlay_hidden :: bool
  overlayMessage :: jsstring
  timers :: "nat \<rightharpoonup> timer_callback"
  next_handle :: nat

definition working :: jsstring where
  "working = js ''Working'' @ [ellipsis]"

definition spinning_up :: jsstring where
  "spinning_up = js ''Spinning up backend'' @ [ellipsis]"

definition waiting_for_database :: jsstring where
  "waiting_for_database = js ''Waiting for database'' @ [ellipsis]"

definition waking_up :: jsstring where
  "waking_up = js ''Backend is waking up'' @ [ellipsis] @ js '' please hold tight.''"

definition issue_detected :: jsstring where
  "issue_detected = js ''Backend issue detected'' @ [ellipsis] @ js '' attempting to recover.''"

text \<open>
  The state when the script starts; the overlay's class and text come from the
  markup, so they are parameters.
\<close>

definition initial_page :: "bool \<Rightarrow> jsstring \<Rightarrow> page" where
  "initial_page hidden txt =
     \<lparr> taskDepth = 0, taskMessage = working,
       backend_active = False, backend_message = [],
       database_active = False, database_message = [],
       transient_active = False, transient_message = [], transient_timeoutId = None,
       backendWait_active = False, backendWait_timerId = None,
       backendWait_startTime = None, backendWait_baseMessage = spinning_up,
       databaseWait_active = False, databaseWait_timerId = None,
       databaseWait_startTime = None, databaseWait_baseMessage = waiting_for_database,
       backendHealthCheckIntervalId = None,
       overlay_hidden = hidden, overlayMessage = txt,
       timers = Map.empty, next_handle = 1 \<rparr>"

text \<open>\<open>if (handle)\<close>: \<open>null\<close> and \<open>0\<close> are falsy.\<close>

definition truthy :: "nat option \<Rightarrow> bool" where
  "truthy h = (case h of None \<Rightarrow> False | Some n \<Rightarrow> n \<noteq> 0)"

text \<open>\<open>setInterval\<close> / \<open>setTimeout\<close> register a callback under a fresh handle.\<close>

definition setTimer :: "timer_callback \<Rightarrow> page \<Rightarrow> nat \<times> page" where
  "setTimer cb s =
     (next_handle s,
      s\<lparr> timers := (timers s)(next_handle s \<mapsto> cb), next_handle := next_handle s + 1 \<rparr>)"

text \<open>\<open>clearInterval\<close> / \<open>clearTimeout\<close>; clearing \<open>null\<close> does nothing.\<close>

definition clearTimer :: "nat option \<Rightarrow> page \<Rightarrow> page" where
  "clearTimer h s = (case h of None \<Rightarrow> s | Some n \<Rightarrow> s\<lparr> timers := (timers s)(n := None) \<rparr>)"

text \<open>Decimal rendering of an integer inside a template literal.\<close>

function show_nat :: "nat \<Rightarrow> jsstring" where
  "show_nat n = (if n < 10 then [of_nat (48 + n)]
                 else show_nat (n div 10) @ [of_nat (48 + n mod 10)])"
  by pat_completeness auto
termination
  by (relation "measure (\<lambda>n. n)") auto

declare show_nat.simps [simp del]

definition show_int :: "int \<Rightarrow> jsstring" where
  "show_int i = (if i < 0 then js ''-'' @ show_nat (nat (- i)) else show_nat (nat i))"

text \<open>
  \<open>refreshOverlay\<close>: the first active level wins. The database level exists in the
  \<open>Status_check\<close> revision only.
\<close>

definition refreshOverlay :: "variant \<Rightarrow> page \<Rightarrow> page" where
  "refreshOverlay v s =
     (if taskDepth s > 0 then s\<lparr> overlayMessage := taskMessage s, overlay_hidden := False \<rparr>
      else if backend_active s
        then s\<lparr> overlayMessage := backend_message s, overlay_hidden := False \<rparr>
      else if v = Status_check \<and> database_active s
        then s\<lparr> overlayMessage := database_message s, overlay_hidden := False \<rparr>
      else if transient_active s
        then s\<lparr> overlayMessage := transient_message s, overlay_hidden := False \<rparr>
      else s\<lparr> overlay_hidden := True, overlayMessage := working \<rparr>)"

text \<open>What the user sees: nothing when the overlay is hidden, else the paragraph's text.\<close>

definition shown :: "page \<Rightarrow> jsstring option" where
  "shown s = (if overlay_hidden s then None else Some (overlayMessage s))"

definition showLoading :: "variant \<Rightarrow> jsstring \<Rightarrow> page \<Rightarrow> page" where
  "showLoading v message s =
     refreshOverlay v (s\<lparr> taskDepth := taskDepth s + 1, taskMessage := message \<rparr>)"

definition hideLoading :: "variant \<Rightarrow> page \<Rightarrow> page" where
  "hideLoading v s = refreshOverlay v (s\<lparr> taskDepth := max 0 (taskDepth s - 1) \<rparr>)"

text \<open>
  \<open>showTransientStatus(message, duration)\<close>: a pending timeout is cancelled, the
  message is stored and a new timeout is registered. When the timeout fires,
  \<open>transient_expired\<close> runs (the browser has dropped the one-shot timer by then).
\<close>

definition showTransientStatus :: "variant \<Rightarrow> jsstring \<Rightarrow> nat \<Rightarrow> page \<Rightarrow> page" where
  "showTransientStatus v message duration s =
     (let s1 = (if truthy (transient_timeoutId s) then clearTimer (transient_timeoutId s) s else s);
          s2 = s1\<lparr> transient_active := True, transient_message := message \<rparr>;
          (h, s3) = setTimer TransientExpire s2
      in refreshOverlay v (s3\<lparr> transient_timeoutId := Some h \<rparr>))"

definition transient_expired :: "variant \<Rightarrow> page \<Rightarrow> page" where
  "transient_expired v s =
     refreshOverlay v (s\<lparr> transient_active := False, transient_timeoutId := None \<rparr>)"

text \<open>
  \<open>Math.round((Date.now() - startTime) / 1000)\<close> on integer milliseconds; a \<open>null\<close>
  start time counts as 0 in the subtraction.
\<close>

definition elapsed_seconds :: "int \<Rightarrow> int option \<Rightarrow> int" where
  "elapsed_seconds now start = (now - (case start of None \<Rightarrow> 0 | Some t \<Rightarrow> t) + 500) div 1000"

definition BACKEND_ESTIMATED_SPINUP_SECONDS :: int where
  "BACKEND_ESTIMATED_SPINUP_SECONDS = 50"

definition updateBackendWaitMessage :: "variant \<Rightarrow> int \<Rightarrow> page \<Rightarrow> page" where
  "updateBackendWaitMessage v now s =
     (if \<not> backendWait_active s then s
      else let elapsedSeconds = elapsed_seconds now (backendWait_startTime s);
               estimate = BACKEND_ESTIMATED_SPINUP_SECONDS;
               message = backendWait_baseMessage s @ js '' '' @ show_int elapsedSeconds
                           @ js ''s / ~'' @ show_int estimate @ js ''s''
           in refreshOverlay v (s\<lparr> backend_active := True, backend_message := message \<rparr>))"

definition startBackendWait :: "variant \<Rightarrow> int \<Rightarrow> jsstring \<Rightarrow> page \<Rightarrow> page" where
  "startBackendWait v now messagePrefix s =
     (let s1 = s\<lparr> backendWait_baseMessage := messagePrefix \<rparr>;
          s2 = (if \<not> backendWait_active s1
                then (let (h, s') = setTimer UpdateBackendWaitMessage
                                      (s1\<lparr> backendWait_active := True,
                                           backendWait_startTime := Some now \<rparr>)
                      in s'\<lparr> backendWait_timerId := Some h \<rparr>)
                else s1)
      in updateBackendWaitMessage v now s2)"

definition stopBackendWait :: "variant \<Rightarrow> page \<Rightarrow> page" where
  "stopBackendWait v s =
     (if \<not> backendWait_active s then s
      else let s1 = s\<lparr> backendWait_active := False \<rparr>;
               s2 = (if truthy (backendWait_timerId s1)
                     then (clearTimer (backendWait_timerId s1) s1)\<lparr> backendWait_timerId := None \<rparr>
                     else s1)
           in refreshOverlay v (s2\<lparr> backend_active := False, backend_message := [] \<rparr>))"

text \<open>The database wait of the \<open>Status_check\<close> revision, built the same way.\<close>

definition updateDatabaseWaitMessage :: "variant \<Rightarrow> int \<Rightarrow> page \<Rightarrow> page" where
  "updateDatabaseWaitMessage v now s =
     (if \<not> databaseWait_active s then s
      else let elapsedSeconds = elapsed_seconds now (databaseWait_startTime s);
               message = databaseWait_baseMessage s @ js '' '' @ show_int elapsedSeconds
                           @ js ''s elapsed''
           in refreshOverlay v (s\<lparr> database_active := True, database_message := message \<rparr>))"

definition startDatabaseWait :: "variant \<Rightarrow> int \<Rightarrow> jsstring \<Rightarrow> page \<Rightarrow> page" where
  "startDatabaseWait v now messagePrefix s =
     (let s1 = s\<lparr> databaseWait_baseMessage := messagePrefix \<rparr>;
          s2 = (if \<not> databaseWait_active s1
                then (let (h, s') = setTimer UpdateDatabaseWaitMessage
                                      (s1\<lparr> databaseWait_active := True,
                                           databaseWait_startTime := Some now \<rparr>)
                      in s'\<lparr> databaseWait_timerId := Some h \<rparr>)
                else s1)
      in updateDatabaseWaitMessage v now s2)"

definition stopDatabaseWait :: "variant \<Rightarrow> page \<Rightarrow> page" where
  "stopDatabaseWait v s =
     (if \<not> databaseWait_active s then s
      else let s1 = s\<lparr> databaseWait_active := False \<rparr>;
               s2 = (if truthy (databaseWait_timerId s1)
                     then (clearTimer (databaseWait_timerId s1) s1)\<lparr> databaseWait_timerId := None \<rparr>
                     else s1)
           in refreshOverlay v (s2\<lparr> database_active := False, database_message := [] \<rparr>))"

text \<open>
  \<open>stopBackendRecoveryPolling\<close> is a function of the \<open>Status_check\<close> revision; the
  other revision has the same three lines at the end of \<open>markBackendOnline\<close>.
\<close>

definition stopBackendRecoveryPolling :: "page \<Rightarrow> page" where
  "stopBackendRecoveryPolling s =
     (if truthy (backendHealthCheckIntervalId s)
      then (clearTimer (backendHealthCheckIntervalId s) s)\<lparr> backendHealthCheckIntervalId := None \<rparr>
      else s)"

definition markBackendOnline :: "variant \<Rightarrow> page \<Rightarrow> page" where
  "markBackendOnline v s =
     (case v of
        Ping_check \<Rightarrow> stopBackendRecoveryPolling (stopBackendWait v s)
      | Status_check \<Rightarrow> stopBackendWait v s)"

text \<open>
  \<open>beginBackendRecovery\<close>: the wait display is started or re-labelled, and the
  recurring health check is registered unless a handle is already stored. The
  \<open>Status_check\<close> revision stops the database wait first.
\<close>

definition beginBackendRecovery :: "variant \<Rightarrow> int \<Rightarrow> jsstring \<Rightarrow> page \<Rightarrow> page" where
  "beginBackendRecovery v now messagePrefix s =
     (let s0 = (case v of Ping_check \<Rightarrow> s | Status_check \<Rightarrow> stopDatabaseWait v s);
          s1 = startBackendWait v now messagePrefix s0
      in if truthy (backendHealthCheckIntervalId s1) then s1
         else (let (h, s2) = setTimer HealthCheck s1
               in s2\<lparr> backendHealthCheckIntervalId := Some h \<rparr>))"

text \<open>
  What a probe of \<open>/health\<close> observed: no usable answer (transport failure or a
  non-2xx status), or a 2xx answer whose payload says whether the database is ready
  (\<open>false\<close> when the payload has no such flag).
\<close>

datatype probe = Probe_failed | Probe_ok bool

definition checkBackendStatus :: "probe \<Rightarrow> bool \<times> bool" where
  "checkBackendStatus p = (case p of Probe_failed \<Rightarrow> (False, False) | Probe_ok r \<Rightarrow> (True, r))"

definition pingBackend :: "variant \<Rightarrow> probe \<Rightarrow> page \<Rightarrow> bool \<times> page" where
  "pingBackend v p s =
     (case p of Probe_ok r \<Rightarrow> (True, markBackendOnline v s) | Probe_failed \<Rightarrow> (False, s))"

definition evaluateHealthStatus ::
  "variant \<Rightarrow> int \<Rightarrow> jsstring \<Rightarrow> probe \<Rightarrow> page \<Rightarrow> bool \<times> page" where
  "evaluateHealthStatus v now messagePrefix p s =
     (case v of
        Ping_check \<Rightarrow>
          (let (isOnline, s1) = pingBackend v p s
           in if \<not> isOnline then (isOnline, beginBackendRecovery v now messagePrefix s1)
              else (isOnline, s1))
      | Status_check \<Rightarrow>
          (let (online, neo4jReady) = checkBackendStatus p
           in if \<not> online then (False, beginBackendRecovery v now messagePrefix s)
              else let s1 = markBackendOnline v s
                   in if \<not> neo4jReady then (False, startDatabaseWait v now waiting_for_database s1)
                      else (True, stopBackendRecoveryPolling (stopDatabaseWait v s1))))"

text \<open>
  The callback of the health-check interval, at the moment its probe has answered.
\<close>

definition health_check_callback :: "variant \<Rightarrow> int \<Rightarrow> probe \<Rightarrow> page \<Rightarrow> page" where
  "health_check_callback v now p s =
     (case v of
        Ping_check \<Rightarrow>
          (let (recovered, s1) = pingBackend v p s
           in if recovered
              then (clearTimer (backendHealthCheckIntervalId s1) s1)
                     \<lparr> backendHealthCheckIntervalId := None \<rparr>
              else s1)
      | Status_check \<Rightarrow>
          (let (online, neo4jReady) = checkBackendStatus p
           in if \<not> online then s
              else let s1 = markBackendOnline v s
                   in if neo4jReady then stopBackendRecoveryPolling (stopDatabaseWait v s1)
                      else startDatabaseWait v now waiting_for_database s1))"

text \<open>
  \<open>request\<close> after \<open>fetch\<close> has settled (the part before \<open>fetch\<close>, which builds
  the config, is modelled with the request gateway below). A transport failure and a status of 500 or
  more begin the recovery; every non-2xx answer throws; a 2xx answer marks the backend
  online and returns the body when it is JSON (the parsed value is kept as its text).
\<close>

record response =
  resp_status :: nat
  resp_text :: jsstring
  resp_content_type :: "jsstring option"

datatype fetched = Fetch_failed | Fetch_response response

datatype 'a outcome = Threw jsstring | Returned 'a

definition resp_ok :: "response \<Rightarrow> bool" where
  "resp_ok r \<longleftrightarrow> 200 \<le> resp_status r \<and> resp_status r \<le> 299"

fun js_includes :: "jsstring \<Rightarrow> jsstring \<Rightarrow> bool" where
  "js_includes pat [] = (pat = [])"
| "js_includes pat (c # cs) = (take (length pat) (c # cs) = pat \<or> js_includes pat cs)"

definition request_settled ::
  "variant \<Rightarrow> int \<Rightarrow> fetched \<Rightarrow> page \<Rightarrow> jsstring option outcome \<times> page" where
  "request_settled v now f s =
     (case f of
        Fetch_failed \<Rightarrow> (Threw waking_up, beginBackendRecovery v now waking_up s)
      | Fetch_response r \<Rightarrow>
          if \<not> resp_ok r
          then (let s1 = (if resp_status r \<ge> 500
                          then beginBackendRecovery v now issue_detected s else s);
                    message = resp_text r
                in (Threw (if message = []
                           then js ''Request failed with status '' @ show_nat (resp_status r)
                           else message), s1))
          else (let s1 = markBackendOnline v s
                in if resp_status r = 204 then (Returned None, s1)
                   else if js_includes (js ''application/json'')
                             (case resp_content_type r of None \<Rightarrow> [] | Some c \<Rightarrow> c)
                     then (Returned (Some (resp_text r)), s1)
                   else (Returned None, s1)))"

text \<open>
  \<open>runTask(message, task)\<close>. The task is any computation on the page state that
  returns or throws; whatever it does, \<open>hideLoading\<close> runs afterwards (\<open>finally\<close>).
\<close>

definition something_went_wrong :: jsstring where
  "something_went_wrong = js ''Something went wrong. Check the console for details.''"

definition runTask ::
  "variant \<Rightarrow> jsstring \<Rightarrow> (page \<Rightarrow> 'a outcome \<times> page) \<Rightarrow> page \<Rightarrow> page" where
  "runTask v message task s =
     (let s1 = showLoading v message s;
          (r, s2) = task s1;
          s3 = (case r of
                  Threw m \<Rightarrow> showTransientStatus v (if m = [] then something_went_wrong else m) 3000 s2
                | Returned x \<Rightarrow> s2)
      in hideLoading v s3)"

text \<open>
  Everything that can happen to the page state, one handler at a time (the event
  loop is single-threaded): a request settles, a health evaluation or the interval's
  probe answers, a timer fires, a task starts or ends, a transient message is shown.
  A handle that is not in the timer table cannot fire. Each event carries the reading
  of \<open>Date.now()\<close> during its handler. The periods of the timers (1 s for the wait
  messages, 10 s for the health check, the duration of a transient message) are not
  part of the state: events may come in any order, which covers every schedule. The
  callback of the health-check interval awaits its probe, so its effect on the state
  is the separate event of the probe's answer.
\<close>

datatype event =
    Request_settled int fetched
  | Health_evaluated int jsstring probe
  | Health_check_answered int probe
  | Timer_fired int nat
  | Show_loading jsstring
  | Hide_loading
  | Show_transient jsstring nat

definition step :: "variant \<Rightarrow> event \<Rightarrow> page \<Rightarrow> page" where
  "step v ev s =
     (case ev of
        Request_settled now f \<Rightarrow> snd (request_settled v now f s)
      | Health_evaluated now prefix p \<Rightarrow> snd (evaluateHealthStatus v now prefix p s)
      | Health_check_answered now p \<Rightarrow> health_check_callback v now p s
      | Timer_fired now h \<Rightarrow>
          (case timers s h of
             None \<Rightarrow> s
           | Some UpdateBackendWaitMessage \<Rightarrow> updateBackendWaitMessage v now s
           | Some UpdateDatabaseWaitMessage \<Rightarrow> updateDatabaseWaitMessage v now s
           | Some HealthCheck \<Rightarrow> s
           | Some TransientExpire \<Rightarrow> transient_expired v (s\<lparr> timers := (timers s)(h := None) \<rparr>))
      | Show_loading message \<Rightarrow> showLoading v message s
      | Hide_loading \<Rightarrow> hideLoading v s
      | Show_transient message duration \<Rightarrow> showTransientStatus v message duration s)"

definition run :: "variant \<Rightarrow> event list \<Rightarrow> page \<Rightarrow> page" where
  "run v evs s = fold (step v) evs s"

text \<open>Events in which the backend answers a request or a probe with a 2xx status.\<close>

fun reports_online :: "event \<Rightarrow> bool" where
  "reports_online (Request_settled now (Fetch_response r)) = resp_ok r"
| "reports_online (Health_evaluated now prefix (Probe_ok r)) = True"
| "reports_online (Health_check_answered now (Probe_ok r)) = True"
| "reports_online _ = False"

text \<open>
  The bookkeeping that every handler keeps. Each kind of callback has one variable
  that stores its handle (the wait timers count as stored only while their wait is
  active). The timer table is consistent with the variables when it holds a callback
  under a handle exactly if the variable of that callback stores the handle, and
  every live handle is positive and below the next one.
\<close>

definition stored_handle :: "page \<Rightarrow> timer_callback \<Rightarrow> nat option" where
  "stored_handle s cb =
     (case cb of
        HealthCheck \<Rightarrow> backendHealthCheckIntervalId s
      | UpdateBackendWaitMessage \<Rightarrow> (if backendWait_active s then backendWait_timerId s else None)
      | UpdateDatabaseWaitMessage \<Rightarrow> (if databaseWait_active s then databaseWait_timerId s else None)
      | TransientExpire \<Rightarrow> transient_timeoutId s)"

definition table_consistent ::
  "(nat \<rightharpoonup> timer_callback) \<Rightarrow> (timer_callback \<Rightarrow> nat option) \<Rightarrow> nat \<Rightarrow> bool" where
  "table_consistent T C n \<longleftrightarrow>
     0 < n \<and> (\<forall>h cb. T h = Some cb \<longleftrightarrow> C cb = Some h) \<and> (\<forall>h cb. T h = Some cb \<longrightarrow> 0 < h \<and> h < n)"

definition timers_consistent :: "page \<Rightarrow> bool" where
  "timers_consistent s \<longleftrightarrow>
     table_consistent (timers s) (stored_handle s) (next_handle s)
     \<and> (backend_active s \<longrightarrow> backendWait_active s)
     \<and> (database_active s \<longrightarrow> databaseWait_active s)"

text \<open>
  The message the overlay should show, by priority: task, backend recovery, database
  wait (in the revision that has it), transient message, nothing. The overlay is in
  sync when what it shows is that message.
\<close>

definition priority_message :: "variant \<Rightarrow> page \<Rightarrow> jsstring option" where
  "priority_message v s =
     (if taskDepth s > 0 then Some (taskMessage s)
      else if backend_active s then Some (backend_message s)
      else if v = Status_check \<and> database_active s then Some (database_message s)
      else if transient_active s then Some (transient_message s)
      else None)"

definition database_and_toast :: page where
  "database_and_toast =
     run Status_check
       [Health_evaluated 0 (js ''Connecting to backend'' @ [ellipsis]) (Probe_ok False),
        Show_transient (js ''Bad request'') 3000]
       (initial_page True [])"

definition overlay_in_sync :: "variant \<Rightarrow> page \<Rightarrow> bool" where
  "overlay_in_sync v s \<longleftrightarrow> shown s = priority_message v s"

definition task_during_outage :: page where
  "task_during_outage =
     run Ping_check
       [Show_loading (js ''Expanding node'' @ [ellipsis]), Request_settled 1000 Fetch_failed]
       (initial_page True [])"

text \<open>
  Events in which a health probe finds the backend online and the database ready, or
  online and the database not ready; the link between a running database wait and its
  stored tick timer; and sample tasks, responses and states used in concrete runs.
\<close>

definition failing_task :: "page \<Rightarrow> unit outcome \<times> page" where
  "failing_task s = (Threw (js ''Request failed with status 404''), s)"

definition first_failure :: page where
  "first_failure = run Ping_check [Request_settled 5000 Fetch_failed] (initial_page True [])"

fun reports_ready :: "event \<Rightarrow> bool" where
  "reports_ready (Health_evaluated now prefix (Probe_ok r)) = r"
| "reports_ready (Health_check_answered now (Probe_ok r)) = r"
| "reports_ready _ = False"

fun reports_not_ready :: "event \<Rightarrow> bool" where
  "reports_not_ready (Health_evaluated now prefix (Probe_ok r)) = (\<not> r)"
| "reports_not_ready (Health_check_answered now (Probe_ok r)) = (\<not> r)"
| "reports_not_ready _ = False"

definition databaseWait_timed :: "page \<Rightarrow> bool" where
  "databaseWait_timed s \<longleftrightarrow> (databaseWait_active s \<longrightarrow> databaseWait_timerId s \<noteq> None)"

definition ok_response :: response where
  "ok_response = \<lparr> resp_status = 200, resp_text = js ''{}'',
                    resp_content_type = Some (js ''application/json'') \<rparr>"

definition ping_outage :: page where
  "ping_outage = run Ping_check [Request_settled 0 Fetch_failed] (initial_page True [])"

definition status_outage :: page where
  "status_outage = run Status_check [Request_settled 0 Fetch_failed] (initial_page True [])"

definition database_not_ready :: page where
  "database_not_ready =
     run Status_check
       [Request_settled 0 Fetch_failed, Health_check_answered 10000 (Probe_ok False)]
       (initial_page True [])"

definition server_error :: response where
  "server_error = \<lparr> resp_status = 500, resp_text = js ''Internal Server Error'',
                      resp_content_type = None \<rparr>"

section \<open>Request gateway: identity and idempotency headers\<close>

text \<open>
  \<open>Math.random() * 16 | 0\<close> is a value from 0 to 15; the source of randomness is the
  sequence of these values, and a draw takes its head.
\<close>

type_synonym random_source = "nat \<Rightarrow> 4 word"

definition hex_digit :: "4 word \<Rightarrow> 16 word" where
  "hex_digit v = (if v < 10 then 48 + ucast v else 87 + ucast v)"

text \<open>
  \<open>template.replace(/[xy]/g, f)\<close>: every \<open>x\<close> becomes the hex digit of a fresh draw,
  every \<open>y\<close> the hex digit of \<open>r & 0x3 | 0x8\<close>; other characters stay. The callback
  runs left to right.
\<close>

fun replace_xy :: "jsstring \<Rightarrow> random_source \<Rightarrow> jsstring \<times> random_source" where
  "replace_xy [] rs = ([], rs)"
| "replace_xy (c # cs) rs =
     (if c = 0x78 \<or> c = 0x79
      then (let r = rs 0;
                v = (if c = 0x78 then r else (r AND 3) OR 8);
                rest = replace_xy cs (\<lambda>n. rs (Suc n))
            in (hex_digit v # fst rest, snd rest))
      else (let rest = replace_xy cs rs in (c # fst rest, snd rest)))"

definition generateUUID :: "random_source \<Rightarrow> jsstring \<times> random_source" where
  "generateUUID rs = replace_xy (js ''xxxxxxxx-xxxx-4xxx-yxxx-xxxxxxxxxxxx'') rs"

text \<open>
  \<open>getOrSetUserId\<close>: the id under \<open>genai-graph-user-id\<close> in local storage, or a new
  UUID that is stored there when the entry is missing or empty.
\<close>

definition USER_ID_KEY :: jsstring where
  "USER_ID_KEY = js ''genai-graph-user-id''"

definition getOrSetUserId ::
  "(jsstring \<rightharpoonup> jsstring) \<Rightarrow> random_source \<Rightarrow> jsstring \<times> (jsstring \<rightharpoonup> jsstring) \<times> random_source" where
  "getOrSetUserId localStorage rs =
     (case localStorage USER_ID_KEY of
        Some userId \<Rightarrow>
          if userId \<noteq> [] then (userId, localStorage, rs)
          else (let u = generateUUID rs in (fst u, localStorage(USER_ID_KEY \<mapsto> fst u), snd u))
      | None \<Rightarrow>
          (let u = generateUUID rs in (fst u, localStorage(USER_ID_KEY \<mapsto> fst u), snd u)))"

text \<open>
  The argument and the result of the first part of \<open>request\<close>, which builds the
  \<open>config\<close> passed to \<open>fetch\<close>. A headers object is a map from names to values.
\<close>

record request_options =
  opt_method :: "jsstring option"
  opt_headers :: "(jsstring \<rightharpoonup> jsstring) option"
  opt_body :: "jsstring option"

record request_config =
  cfg_method :: jsstring
  cfg_headers :: "jsstring \<rightharpoonup> jsstring"
  cfg_body :: "jsstring option"

text \<open>\<open>toUpperCase\<close>, on the ASCII letters (all that an HTTP method has).\<close>

definition toUpperCase :: "jsstring \<Rightarrow> jsstring" where
  "toUpperCase s = map (\<lambda>c. if 0x61 \<le> c \<and> c \<le> 0x7A then c - 0x20 else c) s"

definition idempotentMethods :: "jsstring list" where
  "idempotentMethods = [js ''POST'', js ''PUT'', js ''DELETE'', js ''PATCH'']"

text \<open>
  The revisions of \<open>request\<close> differ in the headers they attach: none (src/script.js
  and the second script of src/start.sh), \<open>X-User-ID\<close> only (src/unnamed/part_000),
  \<open>X-User-ID\<close> and \<open>Idempotency-Key\<close> (the first script of src/start.sh).
\<close>

datatype gateway = No_identity | User_id_only | User_id_and_idempotency_key

definition request_config_of ::
  "gateway \<Rightarrow> jsstring \<Rightarrow> request_options \<Rightarrow> random_source \<Rightarrow> request_config \<times> random_source" where
  "request_config_of gw USER_ID options rs =
     (let config = \<lparr> cfg_method = (case opt_method options of
                                      None \<Rightarrow> js ''GET''
                                    | Some m \<Rightarrow> if m = [] then js ''GET'' else m),
                     cfg_headers = (case opt_headers options of None \<Rightarrow> Map.empty | Some h \<Rightarrow> h),
                     cfg_body = None \<rparr>;
          c1 = (if gw = No_identity then config
                else config\<lparr> cfg_headers := (cfg_headers config)(js ''X-User-ID'' \<mapsto> USER_ID) \<rparr>);
          keyed = (gw = User_id_and_idempotency_key
                   \<and> toUpperCase (cfg_method c1) \<in> set idempotentMethods);
          u = generateUUID rs;
          c2 = (if keyed
                then c1\<lparr> cfg_headers := (cfg_headers c1)(js ''Idempotency-Key'' \<mapsto> fst u) \<rparr>
                else c1);
          rs' = (if keyed then snd u else rs);
          c3 = (case opt_body options of
                  None \<Rightarrow> c2
                | Some b \<Rightarrow>
                    if b = [] then c2
                    else (let c = c2\<lparr> cfg_body := Some b \<rparr>
                          in case cfg_headers c (js ''Content-Type'') of
                               None \<Rightarrow> c\<lparr> cfg_headers :=
                                          (cfg_headers c)(js ''Content-Type'' \<mapsto> js ''application/json'') \<rparr>
                             | Some t \<Rightarrow>
                                 if t = []
                                 then c\<lparr> cfg_headers :=
                                          (cfg_headers c)(js ''Content-Type'' \<mapsto> js ''application/json'') \<rparr>
                                 else c))
      in (c3, rs'))"

text \<open>
  The shape of a version-4 UUID: 36 characters, hyphens at 8, 13, 18 and 23, the
  digit 4 at 14, one of 8, 9, a, b at 19, lower-case hex digits elsewhere.
\<close>

definition is_hex :: "16 word \<Rightarrow> bool" where
  "is_hex c \<longleftrightarrow> (0x30 \<le> c \<and> c \<le> 0x39) \<or> (0x61 \<le> c \<and> c \<le> 0x66)"

definition uuid_v4_shaped :: "jsstring \<Rightarrow> bool" where
  "uuid_v4_shaped u \<longleftrightarrow>
     length u = 36
     \<and> u ! 8 = 0x2D \<and> u ! 13 = 0x2D \<and> u ! 18 = 0x2D \<and> u ! 23 = 0x2D
     \<and> u ! 14 = 0x34
     \<and> u ! 19 \<in> {0x38, 0x39, 0x61, 0x62}
     \<and> list_all is_hex (take 8 u) \<and> list_all is_hex (take 4 (drop 9 u))
     \<and> list_all is_hex (take 4 (drop 14 u)) \<and> list_all is_hex (take 4 (drop 19 u))
     \<and> list_all is_hex (drop 24 u)"

text \<open>Sample inputs: a POST with a body, and a source of randomness.\<close>

definition post_node :: request_options where
  "post_node = \<lparr> opt_method = Some (js ''POST''), opt_headers = None,
                 opt_body = Some (js ''{}'') \<rparr>"

definition counting_source :: random_source where
  "counting_source n = of_nat n"

section \<open>Properties of the text measurer\<close>

lemma truncate_loop_prefix:
  "\<exists>n\<le>length t. truncate_loop msr w font t = take n t
     \<and> (0 < n \<longrightarrow> msr (take n t @ [ellipsis]) font \<le> w)
     \<and> (\<forall>k. n < k \<and> k \<le> length t \<longrightarrow> \<not> msr (take k t @ [ellipsis]) font \<le> w)"
proof (induction msr w font t rule: truncate_loop.induct)
  case (1 msr w font t)
  show ?case
  proof (cases "length t > 0 \<and> msr (t @ [ellipsis]) font > w")
    case False
    then have "truncate_loop msr w font t = t"
      by (subst truncate_loop.simps) auto
    with False show ?thesis
      by (intro exI[of _ "length t"]) auto
  next
    case True
    then have eq: "truncate_loop msr w font t = truncate_loop msr w font (butlast t)"
      by (subst truncate_loop.simps) auto
    from "1.IH"[OF True] obtain n where n: "n \<le> length (butlast t)"
      "truncate_loop msr w font (butlast t) = take n (butlast t)"
      "0 < n \<longrightarrow> msr (take n (butlast t) @ [ellipsis]) font \<le> w"
      "\<forall>k. n < k \<and> k \<le> length (butlast t) \<longrightarrow> \<not> msr (take k (butlast t) @ [ellipsis]) font \<le> w"
      by blast
    have tk: "\<And>k. k \<le> length (butlast t) \<Longrightarrow> take k (butlast t) = take k t"
      by (simp add: butlast_conv_take)
    have "\<forall>k. n < k \<and> k \<le> length t \<longrightarrow> \<not> msr (take k t @ [ellipsis]) font \<le> w"
    proof (intro allI impI)
      fix k assume k: "n < k \<and> k \<le> length t"
      show "\<not> msr (take k t @ [ellipsis]) font \<le> w"
      proof (cases "k = length t")
        case True
        with \<open>length t > 0 \<and> msr (t @ [ellipsis]) font > w\<close> show ?thesis
          by (simp add: not_le)
      next
        case False
        with k have "k \<le> length (butlast t)" by auto
        with n(4) k tk show ?thesis by auto
      qed
    qed
    with n tk eq show ?thesis
      by (intro exI[of _ n]) auto
  qed
qed

text \<open>
  C9 (amended). If the text fits it is returned unchanged. Otherwise the result is
  the longest prefix of the text that fits together with the ellipsis (the empty
  prefix when no non-empty prefix fits), followed by the ellipsis: it ends in the
  ellipsis and is at most one code unit longer than the text.
\<close>

theorem truncateTextToFit_longest_prefix:
  "(msr t font \<le> maxWidth \<longrightarrow> truncateTextToFit msr t maxWidth font = t) \<and>
   (\<not> msr t font \<le> maxWidth \<longrightarrow>
      (\<exists>n\<le>length t.
          truncateTextToFit msr t maxWidth font = take n t @ [ellipsis]
        \<and> (0 < n \<longrightarrow> msr (take n t @ [ellipsis]) font \<le> maxWidth)
        \<and> (\<forall>k. n < k \<and> k \<le> length t \<longrightarrow>
              \<not> msr (take k t @ [ellipsis]) font \<le> maxWidth))
      \<and> last (truncateTextToFit msr t maxWidth font) = ellipsis
      \<and> length (truncateTextToFit msr t maxWidth font) \<le> length t + 1)"
proof -
  obtain n where n: "n \<le> length t"
      "truncate_loop msr maxWidth font t = take n t"
      "0 < n \<longrightarrow> msr (take n t @ [ellipsis]) font \<le> maxWidth"
      "\<forall>k. n < k \<and> k \<le> length t \<longrightarrow> \<not> msr (take k t @ [ellipsis]) font \<le> maxWidth"
    using truncate_loop_prefix[where t = t and msr = msr and w = maxWidth and font = font]
    by blast
  show ?thesis
    unfolding truncateTextToFit_def using n by auto
qed

theorem truncateTextToFit_longest_prefix_witness:
  "advance_measure (js ''ok'') (js ''f'') \<le> 9999
   \<and> truncateTextToFit advance_measure (js ''ok'') 9999 (js ''f'') = js ''ok''
   \<and> \<not> advance_measure (js ''abc'') (js ''f'') \<le> 17
   \<and> last (truncateTextToFit advance_measure (js ''abc'') 17 (js ''f'')) = ellipsis
   \<and> length (truncateTextToFit advance_measure (js ''abc'') 17 (js ''f'')) \<le> length (js ''abc'') + 1"
  using truncateTextToFit_longest_prefix
          [where msr = advance_measure and t = "js ''ok''" and maxWidth = 9999 and font = "js ''f''"]
        truncateTextToFit_longest_prefix
          [where msr = advance_measure and t = "js ''abc''" and maxWidth = 17 and font = "js ''f''"]
  by (simp add: advance_measure_def js_def ellipsis_def)

text \<open>
  C9 as stated fails: with advances of 10 per code unit and 5 for the ellipsis, the
  text \<open>ab\<close> (width 20) does not fit into 17, the loop drops one code unit and returns
  \<open>a\<close> followed by the ellipsis, which is as long as the original, not shorter.
\<close>

theorem truncateTextToFit_not_shorter:
  "\<not> advance_measure (js ''ab'') (js ''f'') \<le> 17
   \<and> truncateTextToFit advance_measure (js ''ab'') 17 (js ''f'') = js ''a'' @ [ellipsis]
   \<and> \<not> length (truncateTextToFit advance_measure (js ''ab'') 17 (js ''f'')) < length (js ''ab'')"
  by (simp add: truncateTextToFit_def truncate_loop.simps advance_measure_def js_def ellipsis_def)

section \<open>Properties of the graph merge\<close>

lemma set_data_twice: "set_data d (set_data d' e) = set_data d e"
  by (simp add: set_data_def)

lemma node_loop_graph_None: "node_loop_graph msr ns g i = None \<longleftrightarrow> g i = None"
  by (auto simp: node_loop_graph_def split: option.splits)

lemma merge_node_pair:
  "merge_node msr n (G, Q) =
     (case G (node_id n) of
        Some ex \<Rightarrow> (G(node_id n \<mapsto> set_data (node_data msr n) ex), Q)
      | None \<Rightarrow> (G, Q @ [node_data msr n]))"
  by (simp add: merge_node_def Let_def split: option.splits)

lemma fold_merge_node:
  "fold (merge_node msr) ns (g, q) =
     (node_loop_graph msr ns g, q @ map (node_data msr) (filter (\<lambda>n. g (node_id n) = None) ns))"
proof (induction ns rule: rev_induct)
  case Nil
  show ?case by (auto simp: node_loop_graph_def split: option.splits)
next
  case (snoc n ns)
  have upd: "node_loop_graph msr (ns @ [n]) g =
        (case node_loop_graph msr ns g (node_id n) of
           Some ex \<Rightarrow> (node_loop_graph msr ns g)(node_id n \<mapsto> set_data (node_data msr n) ex)
         | None \<Rightarrow> node_loop_graph msr ns g)"
    by (rule ext) (auto simp: node_loop_graph_def set_data_twice split: option.splits)
  let ?G = "node_loop_graph msr ns g"
  let ?Q = "q @ map (node_data msr) (filter (\<lambda>n. g (node_id n) = None) ns)"
  have step: "fold (merge_node msr) (ns @ [n]) (g, q) = merge_node msr n (?G, ?Q)"
    using snoc by simp
  show ?case
  proof (cases "g (node_id n)")
    case None
    then have G: "?G (node_id n) = None" by (simp add: node_loop_graph_None)
    have F: "fold (merge_node msr) (ns @ [n]) (g, q) = (?G, ?Q @ [node_data msr n])"
      unfolding step by (simp only: merge_node_pair G option.case)
    have N: "node_loop_graph msr (ns @ [n]) g = ?G"
      unfolding upd by (simp only: G option.case)
    have Q: "q @ map (node_data msr) (filter (\<lambda>n. g (node_id n) = None) (ns @ [n]))
             = ?Q @ [node_data msr n]"
      using None by simp
    show ?thesis by (simp only: F N Q)
  next
    case (Some e)
    then obtain ex where ex: "?G (node_id n) = Some ex"
      using node_loop_graph_None[of msr ns g "node_id n"] by (cases "?G (node_id n)") auto
    have F: "fold (merge_node msr) (ns @ [n]) (g, q) =
            (?G(node_id n \<mapsto> set_data (node_data msr n) ex), ?Q)"
      unfolding step by (simp only: merge_node_pair ex option.case)
    have N: "node_loop_graph msr (ns @ [n]) g =
            ?G(node_id n \<mapsto> set_data (node_data msr n) ex)"
      unfolding upd by (simp only: ex option.case)
    have Q: "q @ map (node_data msr) (filter (\<lambda>n. g (node_id n) = None) (ns @ [n])) = ?Q"
      using Some by simp
    show ?thesis by (simp only: F N Q)
  qed
qed

lemma node_loop_eq:
  "node_loop msr ns g =
     (node_loop_graph msr ns g, map (node_data msr) (filter (\<lambda>n. g (node_id n) = None) ns))"
  by (simp add: node_loop_def fold_merge_node)

lemma merge_edge_pair:
  "merge_edge g ed (seen, q) =
     (if edge_id ed \<in> seen then (seen, q)
      else if g (edge_id ed) \<noteq> None then (insert (edge_id ed) seen, q)
      else (insert (edge_id ed) seen, q @ [edge_data ed]))"
  by (simp add: merge_edge_def Let_def)

lemma eid_edge_data [simp]: "eid (edge_data ed) = edge_id ed"
  by (simp add: edge_data_def)

lemma fold_merge_edge:
  "\<exists>new. fold (merge_edge g) es (seen, q) = (seen \<union> edge_id ` set es, q @ new)
      \<and> distinct (map eid new)
      \<and> (\<forall>x\<in>set new. \<exists>ed\<in>set es. x = edge_data ed \<and> g (edge_id ed) = None \<and> edge_id ed \<notin> seen)
      \<and> (\<forall>ed\<in>set es. g (edge_id ed) = None \<and> edge_id ed \<notin> seen \<longrightarrow> edge_id ed \<in> eid ` set new)"
proof (induction es arbitrary: seen q)
  case Nil
  show ?case by simp
next
  case (Cons ed es)
  consider (seen) "edge_id ed \<in> seen"
    | (exists) "edge_id ed \<notin> seen" "g (edge_id ed) \<noteq> None"
    | (push) "edge_id ed \<notin> seen" "g (edge_id ed) = None"
    by blast
  then show ?case
  proof cases
    case seen
    from Cons.IH[of seen q] obtain new where new:
      "fold (merge_edge g) es (seen, q) = (seen \<union> edge_id ` set es, q @ new)"
      "distinct (map eid new)"
      "\<forall>x\<in>set new. \<exists>ed\<in>set es. x = edge_data ed \<and> g (edge_id ed) = None \<and> edge_id ed \<notin> seen"
      "\<forall>ed\<in>set es. g (edge_id ed) = None \<and> edge_id ed \<notin> seen \<longrightarrow> edge_id ed \<in> eid ` set new"
      by blast
    have "fold (merge_edge g) (ed # es) (seen, q) = (seen \<union> edge_id ` set (ed # es), q @ new)"
      using seen new(1) by (simp add: merge_edge_pair insert_absorb)
    with new(2,3,4) seen show ?thesis
      by (intro exI[of _ new]) auto
  next
    case exists
    from Cons.IH[of "insert (edge_id ed) seen" q] obtain new where new:
      "fold (merge_edge g) es (insert (edge_id ed) seen, q)
         = (insert (edge_id ed) seen \<union> edge_id ` set es, q @ new)"
      "distinct (map eid new)"
      "\<forall>x\<in>set new. \<exists>ed'\<in>set es. x = edge_data ed' \<and> g (edge_id ed') = None
           \<and> edge_id ed' \<notin> insert (edge_id ed) seen"
      "\<forall>ed'\<in>set es. g (edge_id ed') = None \<and> edge_id ed' \<notin> insert (edge_id ed) seen
           \<longrightarrow> edge_id ed' \<in> eid ` set new"
      by blast
    have "fold (merge_edge g) (ed # es) (seen, q) = (seen \<union> edge_id ` set (ed # es), q @ new)"
      using exists new(1) by (simp add: merge_edge_pair)
    moreover have "\<forall>x\<in>set new. \<exists>ed'\<in>set (ed # es). x = edge_data ed' \<and> g (edge_id ed') = None
           \<and> edge_id ed' \<notin> seen"
      using new(3) by auto
    moreover have "\<forall>ed'\<in>set (ed # es). g (edge_id ed') = None \<and> edge_id ed' \<notin> seen
           \<longrightarrow> edge_id ed' \<in> eid ` set new"
      using new(4) exists by auto
    ultimately show ?thesis using new(2)
      by (intro exI[of _ new]) blast
  next
    case push
    from Cons.IH[of "insert (edge_id ed) seen" "q @ [edge_data ed]"] obtain new where new:
      "fold (merge_edge g) es (insert (edge_id ed) seen, q @ [edge_data ed])
         = (insert (edge_id ed) seen \<union> edge_id ` set es, (q @ [edge_data ed]) @ new)"
      "distinct (map eid new)"
      "\<forall>x\<in>set new. \<exists>ed'\<in>set es. x = edge_data ed' \<and> g (edge_id ed') = None
           \<and> edge_id ed' \<notin> insert (edge_id ed) seen"
      "\<forall>ed'\<in>set es. g (edge_id ed') = None \<and> edge_id ed' \<notin> insert (edge_id ed) seen
           \<longrightarrow> edge_id ed' \<in> eid ` set new"
      by blast
    let ?new = "edge_data ed # new"
    have "fold (merge_edge g) (ed # es) (seen, q) = (seen \<union> edge_id ` set (ed # es), q @ ?new)"
      using push new(1) by (simp add: merge_edge_pair)
    moreover have "distinct (map eid ?new)"
      using new(2,3) by auto
    moreover have "\<forall>x\<in>set ?new. \<exists>ed'\<in>set (ed # es). x = edge_data ed' \<and> g (edge_id ed') = None
           \<and> edge_id ed' \<notin> seen"
      using new(3) push by auto
    moreover have "\<forall>ed'\<in>set (ed # es). g (edge_id ed') = None \<and> edge_id ed' \<notin> seen
           \<longrightarrow> edge_id ed' \<in> eid ` set ?new"
      using new(4) by auto
    ultimately show ?thesis
      by (intro exI[of _ ?new]) blast
  qed
qed

lemma edge_loop_new:
  "\<exists>new. edge_loop g es q = q @ new
      \<and> distinct (map eid new)
      \<and> (\<forall>x\<in>set new. \<exists>ed\<in>set es. x = edge_data ed \<and> g (edge_id ed) = None)
      \<and> (\<forall>ed\<in>set es. g (edge_id ed) = None \<longrightarrow> edge_id ed \<in> eid ` set new)"
  using fold_merge_edge[of g es "{}" q] unfolding edge_loop_def by fastforce

lemma merge_edge_refilter:
  assumes "\<And>i. g1 i = None \<Longrightarrow> g i = None"
  shows "fold (merge_edge g1) es (seen, filter (\<lambda>x. g1 (eid x) = None) q) =
     (fst (fold (merge_edge g) es (seen, q)),
      filter (\<lambda>x. g1 (eid x) = None) (snd (fold (merge_edge g) es (seen, q))))"
proof (induction es arbitrary: seen q)
  case Nil
  show ?case by simp
next
  case (Cons ed es)
  consider (seen) "edge_id ed \<in> seen"
    | (exists) "edge_id ed \<notin> seen" "g (edge_id ed) \<noteq> None"
    | (later) "edge_id ed \<notin> seen" "g (edge_id ed) = None" "g1 (edge_id ed) \<noteq> None"
    | (push) "edge_id ed \<notin> seen" "g (edge_id ed) = None" "g1 (edge_id ed) = None"
    by blast
  then show ?case
  proof cases
    case seen
    then show ?thesis using Cons.IH[of seen q] by (simp add: merge_edge_pair)
  next
    case exists
    with assms[of "edge_id ed"] have "g1 (edge_id ed) \<noteq> None" by blast
    with exists show ?thesis
      using Cons.IH[of "insert (edge_id ed) seen" q] by (simp add: merge_edge_pair)
  next
    case later
    then have f: "filter (\<lambda>x. g1 (eid x) = None) (q @ [edge_data ed])
        = filter (\<lambda>x. g1 (eid x) = None) q" by auto
    from later show ?thesis
      using Cons.IH[of "insert (edge_id ed) seen" "q @ [edge_data ed]"]
      unfolding f by (simp add: merge_edge_pair)
  next
    case push
    then have f: "filter (\<lambda>x. g1 (eid x) = None) (q @ [edge_data ed])
        = filter (\<lambda>x. g1 (eid x) = None) q @ [edge_data ed]" by simp
    from push show ?thesis
      using Cons.IH[of "insert (edge_id ed) seen" "q @ [edge_data ed]"]
      unfolding f by (simp add: merge_edge_pair)
  qed
qed

lemma merge_edge_None_cong:
  assumes "\<And>i. (g i = None) = (g' i = None)"
  shows "merge_edge g = merge_edge g'"
  by (rule ext, rule ext) (simp add: merge_edge_def Let_def assms)

lemma cy_add_keep: "g i = Some e \<Longrightarrow> snd (cy_add q g) i = Some e"
proof (induction q arbitrary: g)
  case Nil
  then show ?case by simp
next
  case (Cons x q)
  show ?case
  proof (cases "g (eid x) \<noteq> None")
    case True
    then have "cy_add (x # q) g = cy_add q g" by simp
    with Cons.IH[of g] Cons.prems show ?thesis by simp
  next
    case False
    with Cons.prems have "(g(eid x \<mapsto> x)) i = Some e" by auto
    with Cons.IH[of "g(eid x \<mapsto> x)"]
    have "snd (cy_add q (g(eid x \<mapsto> x))) i = Some e" by blast
    with False Cons.prems show ?thesis by simp
  qed
qed

lemma cy_add_None: "snd (cy_add q g) i = None \<Longrightarrow> g i = None"
  using cy_add_keep[of g i _ q] by (cases "g i") auto


lemma cy_add_first:
  "snd (cy_add q g) i = Some e \<Longrightarrow> g i = None \<Longrightarrow> find (\<lambda>x. eid x = i) q = Some e"
proof (induction q arbitrary: g)
  case Nil
  then show ?case by simp
next
  case (Cons x q)
  show ?case
  proof (cases "g (eid x) \<noteq> None")
    case True
    with Cons.prems have "snd (cy_add q g) i = Some e" "eid x \<noteq> i" by auto
    with Cons.IH[of g] Cons.prems(2) show ?thesis by simp
  next
    case False
    show ?thesis
    proof (cases "eid x = [] \<or> (grp x = Edges
        \<and> (endpoint_missing g (source x) \<or> endpoint_missing g (target x)))")
      case True
      with False Cons.prems show ?thesis by (auto split: if_splits)
    next
      case stored: False
      with False Cons.prems have r: "snd (cy_add q (g(eid x \<mapsto> x))) i = Some e" by auto
      show ?thesis
      proof (cases "eid x = i")
        case True
        then have "snd (cy_add q (g(eid x \<mapsto> x))) i = Some x"
          by (intro cy_add_keep) simp
        with r True show ?thesis by simp
      next
        case False
        with Cons.IH[OF r] Cons.prems(2) show ?thesis by simp
      qed
    qed
  qed
qed


lemma cy_add_refilter:
  "cy_add (filter (\<lambda>x. snd (cy_add q g) (eid x) = None) q) (snd (cy_add q g)) = cy_add q g"
proof (induction q arbitrary: g)
  case Nil
  show ?case by simp
next
  case (Cons y q)
  show ?case
  proof (cases "g (eid y) \<noteq> None")
    case True
    then have eq: "cy_add (y # q) g = cy_add q g" by simp
    from True obtain e where "g (eid y) = Some e" by blast
    with cy_add_keep[of g "eid y" e q] have "snd (cy_add q g) (eid y) = Some e" by simp
    then have f: "filter (\<lambda>x. snd (cy_add q g) (eid x) = None) (y # q)
        = filter (\<lambda>x. snd (cy_add q g) (eid x) = None) q" by simp
    show ?thesis unfolding eq f by (rule Cons.IH)
  next
    case False
    show ?thesis
    proof (cases "eid y = [] \<or> (grp y = Edges
        \<and> (endpoint_missing g (source y) \<or> endpoint_missing g (target y)))")
      case True
      with False show ?thesis by auto
    next
      case stored: False
      have eq: "cy_add (y # q) g = cy_add q (g(eid y \<mapsto> y))"
        using False stored by auto
      have "snd (cy_add q (g(eid y \<mapsto> y))) (eid y) = Some y"
        by (intro cy_add_keep) simp
      then have f: "filter (\<lambda>x. snd (cy_add q (g(eid y \<mapsto> y))) (eid x) = None) (y # q)
          = filter (\<lambda>x. snd (cy_add q (g(eid y \<mapsto> y))) (eid x) = None) q" by simp
      show ?thesis unfolding eq f by (rule Cons.IH)
    qed
  qed
qed





lemma mergeGraph_Some:
  "mergeGraph msr (Some gd) g =
     cy_add (merge_queue msr gd g) (node_loop_graph msr (payload_nodes gd) g)"
  by (simp add: mergeGraph_def merge_queue_def Let_def node_loop_eq)

lemma graph_after_Some:
  "graph_after msr (Some gd) g =
     snd (cy_add (merge_queue msr gd g) (node_loop_graph msr (payload_nodes gd) g))"
  by (simp add: graph_after_def mergeGraph_Some)

lemma graph_after_None [simp]: "graph_after msr None g = g"
  by (simp add: graph_after_def mergeGraph_def)

lemma eid_node_data [simp]: "eid (node_data msr n) = node_id n"
  by (simp add: node_data_def Let_def)

lemma grp_node_data [simp]: "grp (node_data msr n) = Nodes"
  by (simp add: node_data_def Let_def)

lemma set_data_self [simp]: "set_data d d = d"
  by (simp add: set_data_def)

lemma edge_id_nonempty [simp]: "edge_id ed \<noteq> []"
  by (simp add: edge_id_def js_def)

lemma merge_queue_split:
  "\<exists>new. merge_queue msr gd g =
            map (node_data msr) (filter (\<lambda>n. g (node_id n) = None) (payload_nodes gd)) @ new
      \<and> distinct (map eid new)
      \<and> (\<forall>x\<in>set new. \<exists>ed\<in>set (payload_edges gd). x = edge_data ed \<and> g (edge_id ed) = None)
      \<and> (\<forall>ed\<in>set (payload_edges gd). g (edge_id ed) = None \<longrightarrow> edge_id ed \<in> eid ` set new)"
  using edge_loop_new[of "node_loop_graph msr (payload_nodes gd) g" "payload_edges gd"
      "map (node_data msr) (filter (\<lambda>n. g (node_id n) = None) (payload_nodes gd))"]
  by (simp add: merge_queue_def node_loop_eq node_loop_graph_None)

lemma merge_queue_refilter:
  assumes "\<And>i. g1 i = None \<Longrightarrow> g i = None"
  shows "merge_queue msr gd g1 = filter (\<lambda>x. g1 (eid x) = None) (merge_queue msr gd g)"
proof -
  let ?ns = "payload_nodes gd"
  let ?es = "payload_edges gd"
  let ?P = "\<lambda>x. g1 (eid x) = None"
  let ?qn = "map (node_data msr) (filter (\<lambda>n. g (node_id n) = None) ?ns)"
  have e1: "merge_edge (node_loop_graph msr ?ns g1) = merge_edge g1"
    by (rule merge_edge_None_cong) (simp add: node_loop_graph_None)
  have e0: "merge_edge (node_loop_graph msr ?ns g) = merge_edge g"
    by (rule merge_edge_None_cong) (simp add: node_loop_graph_None)
  have "filter (\<lambda>n. g1 (node_id n) = None) ?ns
      = filter (\<lambda>n. g1 (node_id n) = None) (filter (\<lambda>n. g (node_id n) = None) ?ns)"
    using assms by (auto intro: filter_cong)
  then have qn: "map (node_data msr) (filter (\<lambda>n. g1 (node_id n) = None) ?ns) = filter ?P ?qn"
    by (simp add: filter_map comp_def)
  have "merge_queue msr gd g1 = snd (fold (merge_edge g1) ?es ({}, filter ?P ?qn))"
    by (simp add: merge_queue_def node_loop_eq edge_loop_def e1 qn)
  also have "\<dots> = filter ?P (snd (fold (merge_edge g) ?es ({}, ?qn)))"
    using merge_edge_refilter[of g1 g ?es "{}" ?qn] assms by simp
  also have "\<dots> = filter ?P (merge_queue msr gd g)"
    by (simp add: merge_queue_def node_loop_eq edge_loop_def e0)
  finally show ?thesis .
qed

lemma find_Some_mem: "find P xs = Some x \<Longrightarrow> x \<in> set xs \<and> P x"
  by (induction xs) (auto split: if_splits)

lemma find_in_prefix: "x \<in> set xs \<Longrightarrow> P x \<Longrightarrow> find P (xs @ ys) = find P xs"
  by (induction xs) auto

lemma find_last_node:
  "n \<in> set ns \<Longrightarrow> \<exists>n'\<in>set ns. node_id n' = node_id n
       \<and> find (\<lambda>m. node_id m = node_id n) (rev ns) = Some n'"
proof (cases "find (\<lambda>m. node_id m = node_id n) (rev ns)")
  case None
  assume "n \<in> set ns"
  with None show ?thesis by (auto simp: find_None_iff)
next
  case (Some n')
  from find_Some_mem[OF Some] Some show ?thesis by auto
qed

lemma node_loop_graph_settled:
  assumes cons: "node_ids_consistent (payload_nodes gd)"
  shows "node_loop_graph msr (payload_nodes gd) (graph_after msr (Some gd) g)
       = graph_after msr (Some gd) g"
proof (rule ext)
  fix i
  let ?ns = "payload_nodes gd"
  let ?G = "node_loop_graph msr ?ns g"
  let ?g1 = "graph_after msr (Some gd) g"
  let ?qn = "map (node_data msr) (filter (\<lambda>n. g (node_id n) = None) ?ns)"
  show "node_loop_graph msr ?ns ?g1 i = ?g1 i"
  proof (cases "?g1 i")
    case None
    then show ?thesis by (simp add: node_loop_graph_def)
  next
    case (Some e)
    note g1 = Some
    show ?thesis
    proof (cases "find (\<lambda>n. node_id n = i) (rev ?ns)")
      case None
      with g1 show ?thesis by (simp add: node_loop_graph_def)
    next
      case (Some n)
      then have n: "n \<in> set ?ns" "node_id n = i"
        using find_Some_mem[of "\<lambda>n. node_id n = i" "rev ?ns" n] by auto
      have "set_data (node_data msr n) e = e"
      proof (cases "g i")
        case (Some e0)
        with \<open>find (\<lambda>n. node_id n = i) (rev ?ns) = Some n\<close>
        have "?G i = Some (set_data (node_data msr n) e0)" by (simp add: node_loop_graph_def)
        then have "?g1 i = Some (set_data (node_data msr n) e0)"
          unfolding graph_after_Some by (rule cy_add_keep)
        with g1 have "e = set_data (node_data msr n) e0" by simp
        then show ?thesis by (simp only: set_data_twice)
      next
        case None
        then have GN: "?G i = None" by (simp add: node_loop_graph_None)
        obtain new where q: "merge_queue msr gd g = ?qn @ new"
          using merge_queue_split[of msr gd g] by blast
        from g1 have "snd (cy_add (?qn @ new) ?G) i = Some e"
          by (simp add: graph_after_Some q)
        from cy_add_first[OF this GN] have f: "find (\<lambda>x. eid x = i) (?qn @ new) = Some e" .
        have "node_data msr n \<in> set ?qn" using n None by auto
        from find_in_prefix[OF this, of "\<lambda>x. eid x = i" new] n(2) f
        have "find (\<lambda>x. eid x = i) ?qn = Some e" by simp
        from find_Some_mem[OF this] have mem: "e \<in> set ?qn" and ide: "eid e = i" by blast+
        from mem obtain n' where n': "n' \<in> set ?ns" "e = node_data msr n'" by auto
        from ide have "node_id n' = node_id n" unfolding n' n(2) by simp
        with cons n(1) n'(1) have "n' = n" unfolding node_ids_consistent_def by blast
        then show ?thesis unfolding n' by simp
      qed
      with Some g1 show ?thesis by (simp add: node_loop_graph_def)
    qed
  qed
qed

lemma mergeGraph_idem:
  assumes "node_ids_consistent (payload_nodes gd)"
  shows "mergeGraph msr (Some gd) (graph_after msr (Some gd) g) = mergeGraph msr (Some gd) g"
proof -
  let ?G = "node_loop_graph msr (payload_nodes gd) g"
  let ?q = "merge_queue msr gd g"
  let ?g1 = "graph_after msr (Some gd) g"
  have g1: "?g1 = snd (cy_add ?q ?G)" by (simp add: graph_after_Some)
  have mono: "g i = None" if "?g1 i = None" for i
    using that cy_add_None[of ?q ?G i] by (simp add: g1 node_loop_graph_None)
  have "mergeGraph msr (Some gd) ?g1
      = cy_add (filter (\<lambda>x. ?g1 (eid x) = None) ?q) ?g1"
    using merge_queue_refilter[of ?g1 g msr gd] mono
    by (simp add: mergeGraph_Some node_loop_graph_settled[OF assms])
  also have "\<dots> = cy_add ?q ?G"
    unfolding g1 by (rule cy_add_refilter)
  finally show ?thesis by (simp add: mergeGraph_Some)
qed

lemmas merge_eval =
  mergeGraph_def graph_after_def merge_all_def node_loop_def edge_loop_def merge_node_def
  merge_edge_def endpoint_missing_def payload_nodes_def payload_edges_def
  node_data_def edge_data_def edge_id_def set_data_def

lemma graph_after_keeps:
  assumes "g i = Some e"
  shows "\<exists>e'. graph_after msr graphData g i = Some e'
      \<and> eid e' = eid e \<and> grp e' = grp e
      \<and> source e' = source e \<and> target e' = target e \<and> label e' = label e
      \<and> (e' = e \<or> (\<exists>gd n. graphData = Some gd \<and> n \<in> set (payload_nodes gd) \<and> node_id n = i
               \<and> e' = set_data (node_data msr n) e))"
proof (cases graphData)
  case None
  with assms show ?thesis by simp
next
  case (Some gd)
  let ?G = "node_loop_graph msr (payload_nodes gd) g"
  show ?thesis
  proof (cases "find (\<lambda>n. node_id n = i) (rev (payload_nodes gd))")
    case None
    with assms have "?G i = Some e" by (simp add: node_loop_graph_def)
    then have "graph_after msr graphData g i = Some e"
      unfolding Some graph_after_Some by (rule cy_add_keep)
    then show ?thesis by simp
  next
    case (Some n)
    with assms have "?G i = Some (set_data (node_data msr n) e)"
      by (simp add: node_loop_graph_def)
    then have "graph_after msr graphData g i = Some (set_data (node_data msr n) e)"
      unfolding \<open>graphData = Some gd\<close> graph_after_Some by (rule cy_add_keep)
    moreover from find_Some_mem[OF Some] have "n \<in> set (payload_nodes gd)" "node_id n = i"
      by auto
    ultimately show ?thesis using \<open>graphData = Some gd\<close>
      by (auto simp: set_data_def)
  qed
qed







lemma graph_after_upsert:
  assumes cons: "node_ids_consistent (payload_nodes gd)" and n: "n \<in> set (payload_nodes gd)"
    and ex: "g (node_id n) = Some e"
  shows "graph_after msr (Some gd) g (node_id n) = Some (set_data (node_data msr n) e)"
proof -
  from find_last_node[OF n] obtain n' where n': "n' \<in> set (payload_nodes gd)"
    "node_id n' = node_id n"
    "find (\<lambda>m. node_id m = node_id n) (rev (payload_nodes gd)) = Some n'" by blast
  with cons n have "n' = n" by (auto simp: node_ids_consistent_def)
  with n' ex have "node_loop_graph msr (payload_nodes gd) g (node_id n)
      = Some (set_data (node_data msr n) e)"
    by (simp add: node_loop_graph_def)
  then show ?thesis unfolding graph_after_Some by (rule cy_add_keep)
qed





lemma merge_all_keeps:
  "g i = Some e \<Longrightarrow>
   \<exists>e'. merge_all msr ps g i = Some e' \<and> eid e' = eid e \<and> grp e' = grp e
      \<and> source e' = source e \<and> target e' = target e \<and> label e' = label e"
proof (induction ps arbitrary: g e)
  case Nil
  then show ?case by (simp add: merge_all_def)
next
  case (Cons p ps)
  from graph_after_keeps[of g i e msr p] Cons.prems obtain e1 where e1:
    "graph_after msr p g i = Some e1" "eid e1 = eid e" "grp e1 = grp e"
    "source e1 = source e" "target e1 = target e" "label e1 = label e"
    by blast
  from Cons.IH[of "graph_after msr p g" e1] e1 show ?case by (auto simp: merge_all_def)
qed

text \<open>
  C1 (amended). Merging a payload a second time changes nothing, provided that node
  objects of the payload that share an id are identical copies: the second call
  leaves the visual graph of the first and ends as the first did, returning or
  throwing the same engine error. No condition on the edges is needed. A missing
  payload is a no-op. A node of the payload whose id the graph already has is
  overwritten in place: name, description, display name and font size are those
  computed from the payload, the id and the group stay.
\<close>

theorem mergeGraph_idempotent:
  "mergeGraph msr None g = (None, g)
   \<and> (node_ids_consistent (payload_nodes gd) \<longrightarrow>
        mergeGraph msr (Some gd) (graph_after msr (Some gd) g) = mergeGraph msr (Some gd) g
      \<and> graph_after msr (Some gd) (graph_after msr (Some gd) g) = graph_after msr (Some gd) g)
   \<and> (node_ids_consistent (payload_nodes gd) \<and> n \<in> set (payload_nodes gd)
        \<and> g (node_id n) = Some e \<longrightarrow>
      (\<exists>e'. graph_after msr (Some gd) g (node_id n) = Some e'
         \<and> eid e' = eid e \<and> grp e' = grp e
         \<and> name e' = node_name n \<and> description e' = node_description n
         \<and> displayName e' = Some (fst (computeNodeVisuals msr (node_name n)))
         \<and> fontSize e' = Some 16))"
proof (intro conjI impI)
  show "mergeGraph msr None g = (None, g)" by (simp add: mergeGraph_def)
next
  assume "node_ids_consistent (payload_nodes gd)"
  then show "mergeGraph msr (Some gd) (graph_after msr (Some gd) g) = mergeGraph msr (Some gd) g"
    by (rule mergeGraph_idem)
next
  assume "node_ids_consistent (payload_nodes gd)"
  then have "mergeGraph msr (Some gd) (graph_after msr (Some gd) g) = mergeGraph msr (Some gd) g"
    by (rule mergeGraph_idem)
  then show "graph_after msr (Some gd) (graph_after msr (Some gd) g) = graph_after msr (Some gd) g"
    by (simp add: graph_after_def)
next
  assume a: "node_ids_consistent (payload_nodes gd) \<and> n \<in> set (payload_nodes gd)
      \<and> g (node_id n) = Some e"
  then have "graph_after msr (Some gd) g (node_id n) = Some (set_data (node_data msr n) e)"
    using graph_after_upsert by blast
  then show "\<exists>e'. graph_after msr (Some gd) g (node_id n) = Some e'
         \<and> eid e' = eid e \<and> grp e' = grp e
         \<and> name e' = node_name n \<and> description e' = node_description n
         \<and> displayName e' = Some (fst (computeNodeVisuals msr (node_name n)))
         \<and> fontSize e' = Some 16"
    by (simp add: set_data_def node_data_def computeNodeVisuals_def Let_def)
qed

theorem mergeGraph_idempotent_witness:
  "node_ids_consistent (payload_nodes sample_payload)
   \<and> mergeGraph advance_measure (Some sample_payload)
        (graph_after advance_measure (Some sample_payload) stale_graph)
      = mergeGraph advance_measure (Some sample_payload) stale_graph
   \<and> fst (mergeGraph advance_measure (Some sample_payload) stale_graph) = None
   \<and> graph_after advance_measure (Some sample_payload)
        (graph_after advance_measure (Some sample_payload) stale_graph)
      = graph_after advance_measure (Some sample_payload) stale_graph
   \<and> node_a \<in> set (payload_nodes sample_payload)
   \<and> stale_graph (node_id node_a) = Some stale_a
   \<and> (\<exists>e'. graph_after advance_measure (Some sample_payload) stale_graph (node_id node_a) = Some e'
         \<and> eid e' = eid stale_a \<and> grp e' = grp stale_a
         \<and> name e' = node_name node_a \<and> description e' = node_description node_a
         \<and> displayName e' = Some (fst (computeNodeVisuals advance_measure (node_name node_a)))
         \<and> fontSize e' = Some 16)
   \<and> node_ids_consistent (payload_nodes lone_edge_payload)
   \<and> fst (mergeGraph advance_measure (Some lone_edge_payload) stale_graph)
      = Some (Missing_endpoint (js ''a-b-relates''))
   \<and> mergeGraph advance_measure (Some lone_edge_payload)
        (graph_after advance_measure (Some lone_edge_payload) stale_graph)
      = mergeGraph advance_measure (Some lone_edge_payload) stale_graph"
proof -
  have h1: "node_ids_consistent (payload_nodes sample_payload)"
    by (simp add: node_ids_consistent_def payload_nodes_def sample_payload_def
        node_a_def node_b_def js_def)
  have h3: "node_a \<in> set (payload_nodes sample_payload)"
    by (simp add: payload_nodes_def sample_payload_def)
  have h4: "stale_graph (node_id node_a) = Some stale_a"
    by (simp add: stale_graph_def node_a_def)
  have h5: "fst (mergeGraph advance_measure (Some sample_payload) stale_graph) = None"
    by (simp add: merge_eval sample_payload_def node_a_def node_b_def edge_a_b_relates_def
        stale_graph_def js_def Let_def)
  have h6: "node_ids_consistent (payload_nodes lone_edge_payload)"
    by (simp add: node_ids_consistent_def payload_nodes_def lone_edge_payload_def)
  have h7: "fst (mergeGraph advance_measure (Some lone_edge_payload) stale_graph)
      = Some (Missing_endpoint (js ''a-b-relates''))"
    by (simp add: merge_eval lone_edge_payload_def edge_a_b_relates_def
        stale_graph_def js_def Let_def)
  from mergeGraph_idempotent[of advance_measure stale_graph sample_payload node_a stale_a]
    mergeGraph_idempotent[of advance_measure stale_graph lone_edge_payload]
    h1 h3 h4 h5 h6 h7
  show ?thesis by blast
qed

text \<open>
  C1 as stated fails for a payload that repeats a node id with different data: merged
  into the empty graph, both copies are queued, the engine keeps the first and leaves
  the second out; in the second merge the id exists, so both copies overwrite the node
  in turn and the last one stays.
\<close>

theorem mergeGraph_not_idempotent_duplicate_ids:
  "map_option name (graph_after advance_measure (Some duplicate_node_payload) Map.empty (js ''x''))
     = Some (Some (js ''A''))
   \<and> map_option name (graph_after advance_measure (Some duplicate_node_payload)
        (graph_after advance_measure (Some duplicate_node_payload) Map.empty) (js ''x''))
     = Some (Some (js ''B''))
   \<and> graph_after advance_measure (Some duplicate_node_payload)
        (graph_after advance_measure (Some duplicate_node_payload) Map.empty)
      \<noteq> graph_after advance_measure (Some duplicate_node_payload) Map.empty"
proof -
  have one: "map_option name
      (graph_after advance_measure (Some duplicate_node_payload) Map.empty (js ''x''))
     = Some (Some (js ''A''))"
    by (simp add: merge_eval duplicate_node_payload_def node_x_A_def node_x_B_def js_def Let_def)
  have two: "map_option name (graph_after advance_measure (Some duplicate_node_payload)
        (graph_after advance_measure (Some duplicate_node_payload) Map.empty) (js ''x''))
     = Some (Some (js ''B''))"
    by (simp add: merge_eval duplicate_node_payload_def node_x_A_def node_x_B_def js_def Let_def)
  have "js ''A'' \<noteq> js ''B''" by (simp add: js_def)
  with one two show ?thesis by (metis option.inject)
qed




text \<open>
  C3. A merge never removes an element: whatever the graph holds under an id before
  the call, it holds an element under that id afterwards, with the same id, group,
  source, target and label; the element is untouched unless a node of the payload
  carries its id, in which case its data are overwritten. This holds whether the call
  returns or the engine throws, and over any sequence of merges.
\<close>

theorem mergeGraph_never_removes:
  assumes "g i = Some e"
  shows "(\<exists>e'. graph_after msr graphData g i = Some e'
            \<and> eid e' = eid e \<and> grp e' = grp e
            \<and> source e' = source e \<and> target e' = target e \<and> label e' = label e
            \<and> (e' = e \<or> (\<exists>gd n. graphData = Some gd \<and> n \<in> set (payload_nodes gd)
                   \<and> node_id n = i \<and> e' = set_data (node_data msr n) e)))
       \<and> (\<exists>e'. merge_all msr ps g i = Some e' \<and> eid e' = eid e \<and> grp e' = grp e
            \<and> source e' = source e \<and> target e' = target e \<and> label e' = label e)"
  using graph_after_keeps[of g i e msr graphData] merge_all_keeps[of g i e msr ps] assms
  by blast

theorem mergeGraph_never_removes_witness:
  "stale_graph (js ''a'') = Some stale_a
   \<and> (\<exists>e'. graph_after advance_measure (Some only_b_payload) stale_graph (js ''a'') = Some e'
            \<and> eid e' = eid stale_a \<and> grp e' = grp stale_a
            \<and> source e' = source stale_a \<and> target e' = target stale_a \<and> label e' = label stale_a
            \<and> (e' = stale_a \<or> (\<exists>gd n. Some only_b_payload = Some gd \<and> n \<in> set (payload_nodes gd)
                   \<and> node_id n = js ''a'' \<and> e' = set_data (node_data advance_measure n) stale_a)))
   \<and> graph_after advance_measure (Some only_b_payload) stale_graph (js ''a'') = Some stale_a
   \<and> (\<exists>e'. merge_all advance_measure [Some only_b_payload, None, Some sample_payload]
              stale_graph (js ''a'') = Some e' \<and> eid e' = eid stale_a \<and> grp e' = grp stale_a
            \<and> source e' = source stale_a \<and> target e' = target stale_a \<and> label e' = label stale_a)"
proof -
  have h: "stale_graph (js ''a'') = Some stale_a" by (simp add: stale_graph_def)
  have same: "graph_after advance_measure (Some only_b_payload) stale_graph (js ''a'') = Some stale_a"
    by (simp add: merge_eval only_b_payload_def node_b_def stale_graph_def js_def Let_def)
  from mergeGraph_never_removes[of stale_graph "js ''a''" stale_a advance_measure
      "Some only_b_payload" "[Some only_b_payload, None, Some sample_payload]"] h same
  show ?thesis by blast
qed

section \<open>Properties of the overlay and of the backend health logic\<close>

text \<open>What each handler does to each field of the page.\<close>

lemma refreshOverlay_frame [simp]:
  "taskDepth (refreshOverlay v s) = taskDepth s"
  "taskMessage (refreshOverlay v s) = taskMessage s"
  "backend_active (refreshOverlay v s) = backend_active s"
  "backend_message (refreshOverlay v s) = backend_message s"
  "database_active (refreshOverlay v s) = database_active s"
  "database_message (refreshOverlay v s) = database_message s"
  "transient_active (refreshOverlay v s) = transient_active s"
  "transient_message (refreshOverlay v s) = transient_message s"
  "transient_timeoutId (refreshOverlay v s) = transient_timeoutId s"
  "backendWait_active (refreshOverlay v s) = backendWait_active s"
  "backendWait_timerId (refreshOverlay v s) = backendWait_timerId s"
  "backendWait_startTime (refreshOverlay v s) = backendWait_startTime s"
  "backendWait_baseMessage (refreshOverlay v s) = backendWait_baseMessage s"
  "databaseWait_active (refreshOverlay v s) = databaseWait_active s"
  "databaseWait_timerId (refreshOverlay v s) = databaseWait_timerId s"
  "databaseWait_startTime (refreshOverlay v s) = databaseWait_startTime s"
  "databaseWait_baseMessage (refreshOverlay v s) = databaseWait_baseMessage s"
  "backendHealthCheckIntervalId (refreshOverlay v s) = backendHealthCheckIntervalId s"
  "timers (refreshOverlay v s) = timers s"
  "next_handle (refreshOverlay v s) = next_handle s"
  by (simp_all add: refreshOverlay_def)

lemma truthy_Some [simp]: "truthy (Some h) \<longleftrightarrow> h \<noteq> 0"
  by (simp add: truthy_def)

lemma truthy_None [simp]: "\<not> truthy None"
  by (simp add: truthy_def)

lemma clearTimer_frame [simp]:
  "taskDepth (clearTimer h s) = taskDepth s"
  "taskMessage (clearTimer h s) = taskMessage s"
  "backend_active (clearTimer h s) = backend_active s"
  "backend_message (clearTimer h s) = backend_message s"
  "database_active (clearTimer h s) = database_active s"
  "database_message (clearTimer h s) = database_message s"
  "transient_active (clearTimer h s) = transient_active s"
  "transient_message (clearTimer h s) = transient_message s"
  "transient_timeoutId (clearTimer h s) = transient_timeoutId s"
  "backendWait_active (clearTimer h s) = backendWait_active s"
  "backendWait_timerId (clearTimer h s) = backendWait_timerId s"
  "backendWait_startTime (clearTimer h s) = backendWait_startTime s"
  "backendWait_baseMessage (clearTimer h s) = backendWait_baseMessage s"
  "databaseWait_active (clearTimer h s) = databaseWait_active s"
  "databaseWait_timerId (clearTimer h s) = databaseWait_timerId s"
  "databaseWait_startTime (clearTimer h s) = databaseWait_startTime s"
  "databaseWait_baseMessage (clearTimer h s) = databaseWait_baseMessage s"
  "backendHealthCheckIntervalId (clearTimer h s) = backendHealthCheckIntervalId s"
  "overlay_hidden (clearTimer h s) = overlay_hidden s"
  "overlayMessage (clearTimer h s) = overlayMessage s"
  "timers (clearTimer h s) = (case h of None \<Rightarrow> timers s | Some n \<Rightarrow> (timers s)(n := None))"
  "next_handle (clearTimer h s) = next_handle s"
  by (simp_all add: clearTimer_def split: option.splits)

lemma setTimer_frame [simp]:
  "taskDepth (snd (setTimer cb s)) = taskDepth s"
  "taskMessage (snd (setTimer cb s)) = taskMessage s"
  "backend_active (snd (setTimer cb s)) = backend_active s"
  "backend_message (snd (setTimer cb s)) = backend_message s"
  "database_active (snd (setTimer cb s)) = database_active s"
  "database_message (snd (setTimer cb s)) = database_message s"
  "transient_active (snd (setTimer cb s)) = transient_active s"
  "transient_message (snd (setTimer cb s)) = transient_message s"
  "transient_timeoutId (snd (setTimer cb s)) = transient_timeoutId s"
  "backendWait_active (snd (setTimer cb s)) = backendWait_active s"
  "backendWait_timerId (snd (setTimer cb s)) = backendWait_timerId s"
  "backendWait_startTime (snd (setTimer cb s)) = backendWait_startTime s"
  "backendWait_baseMessage (snd (setTimer cb s)) = backendWait_baseMessage s"
  "databaseWait_active (snd (setTimer cb s)) = databaseWait_active s"
  "databaseWait_timerId (snd (setTimer cb s)) = databaseWait_timerId s"
  "databaseWait_startTime (snd (setTimer cb s)) = databaseWait_startTime s"
  "databaseWait_baseMessage (snd (setTimer cb s)) = databaseWait_baseMessage s"
  "backendHealthCheckIntervalId (snd (setTimer cb s)) = backendHealthCheckIntervalId s"
  "overlay_hidden (snd (setTimer cb s)) = overlay_hidden s"
  "overlayMessage (snd (setTimer cb s)) = overlayMessage s"
  "timers (snd (setTimer cb s)) = (timers s)(next_handle s \<mapsto> cb)"
  "next_handle (snd (setTimer cb s)) = next_handle s + 1"
  by (simp_all add: setTimer_def)

lemma fst_setTimer [simp]: "fst (setTimer cb s) = next_handle s"
  by (simp add: setTimer_def)

lemma showLoading_frame [simp]:
  "taskDepth (showLoading v m s) = taskDepth s + 1"
  "taskMessage (showLoading v m s) = m"
  "backend_active (showLoading v m s) = backend_active s"
  "backend_message (showLoading v m s) = backend_message s"
  "database_active (showLoading v m s) = database_active s"
  "database_message (showLoading v m s) = database_message s"
  "transient_active (showLoading v m s) = transient_active s"
  "transient_message (showLoading v m s) = transient_message s"
  "transient_timeoutId (showLoading v m s) = transient_timeoutId s"
  "backendWait_active (showLoading v m s) = backendWait_active s"
  "backendWait_timerId (showLoading v m s) = backendWait_timerId s"
  "backendWait_startTime (showLoading v m s) = backendWait_startTime s"
  "backendWait_baseMessage (showLoading v m s) = backendWait_baseMessage s"
  "databaseWait_active (showLoading v m s) = databaseWait_active s"
  "databaseWait_timerId (showLoading v m s) = databaseWait_timerId s"
  "databaseWait_startTime (showLoading v m s) = databaseWait_startTime s"
  "databaseWait_baseMessage (showLoading v m s) = databaseWait_baseMessage s"
  "backendHealthCheckIntervalId (showLoading v m s) = backendHealthCheckIntervalId s"
  "timers (showLoading v m s) = timers s"
  "next_handle (showLoading v m s) = next_handle s"
  by (simp_all add: showLoading_def)

lemma hideLoading_frame [simp]:
  "taskDepth (hideLoading v s) = max 0 (taskDepth s - 1)"
  "taskMessage (hideLoading v s) = taskMessage s"
  "backend_active (hideLoading v s) = backend_active s"
  "backend_message (hideLoading v s) = backend_message s"
  "database_active (hideLoading v s) = database_active s"
  "database_message (hideLoading v s) = database_message s"
  "transient_active (hideLoading v s) = transient_active s"
  "transient_message (hideLoading v s) = transient_message s"
  "transient_timeoutId (hideLoading v s) = transient_timeoutId s"
  "backendWait_active (hideLoading v s) = backendWait_active s"
  "backendWait_timerId (hideLoading v s) = backendWait_timerId s"
  "backendWait_startTime (hideLoading v s) = backendWait_startTime s"
  "backendWait_baseMessage (hideLoading v s) = backendWait_baseMessage s"
  "databaseWait_active (hideLoading v s) = databaseWait_active s"
  "databaseWait_timerId (hideLoading v s) = databaseWait_timerId s"
  "databaseWait_startTime (hideLoading v s) = databaseWait_startTime s"
  "databaseWait_baseMessage (hideLoading v s) = databaseWait_baseMessage s"
  "backendHealthCheckIntervalId (hideLoading v s) = backendHealthCheckIntervalId s"
  "timers (hideLoading v s) = timers s"
  "next_handle (hideLoading v s) = next_handle s"
  by (simp_all add: hideLoading_def)

lemma updateBackendWaitMessage_frame [simp]:
  "taskDepth (updateBackendWaitMessage v now s) = taskDepth s"
  "taskMessage (updateBackendWaitMessage v now s) = taskMessage s"
  "backend_active (updateBackendWaitMessage v now s) = (backendWait_active s \<or> backend_active s)"
  "database_active (updateBackendWaitMessage v now s) = database_active s"
  "database_message (updateBackendWaitMessage v now s) = database_message s"
  "transient_active (updateBackendWaitMessage v now s) = transient_active s"
  "transient_message (updateBackendWaitMessage v now s) = transient_message s"
  "transient_timeoutId (updateBackendWaitMessage v now s) = transient_timeoutId s"
  "backendWait_active (updateBackendWaitMessage v now s) = backendWait_active s"
  "backendWait_timerId (updateBackendWaitMessage v now s) = backendWait_timerId s"
  "backendWait_startTime (updateBackendWaitMessage v now s) = backendWait_startTime s"
  "backendWait_baseMessage (updateBackendWaitMessage v now s) = backendWait_baseMessage s"
  "databaseWait_active (updateBackendWaitMessage v now s) = databaseWait_active s"
  "databaseWait_timerId (updateBackendWaitMessage v now s) = databaseWait_timerId s"
  "databaseWait_startTime (updateBackendWaitMessage v now s) = databaseWait_startTime s"
  "databaseWait_baseMessage (updateBackendWaitMessage v now s) = databaseWait_baseMessage s"
  "backendHealthCheckIntervalId (updateBackendWaitMessage v now s) = backendHealthCheckIntervalId s"
  "timers (updateBackendWaitMessage v now s) = timers s"
  "next_handle (updateBackendWaitMessage v now s) = next_handle s"
  by (simp_all add: updateBackendWaitMessage_def Let_def)

lemma updateDatabaseWaitMessage_frame [simp]:
  "taskDepth (updateDatabaseWaitMessage v now s) = taskDepth s"
  "taskMessage (updateDatabaseWaitMessage v now s) = taskMessage s"
  "backend_active (updateDatabaseWaitMessage v now s) = backend_active s"
  "backend_message (updateDatabaseWaitMessage v now s) = backend_message s"
  "database_active (updateDatabaseWaitMessage v now s) = (databaseWait_active s \<or> database_active s)"
  "transient_active (updateDatabaseWaitMessage v now s) = transient_active s"
  "transient_message (updateDatabaseWaitMessage v now s) = transient_message s"
  "transient_timeoutId (updateDatabaseWaitMessage v now s) = transient_timeoutId s"
  "backendWait_active (updateDatabaseWaitMessage v now s) = backendWait_active s"
  "backendWait_timerId (updateDatabaseWaitMessage v now s) = backendWait_timerId s"
  "backendWait_startTime (updateDatabaseWaitMessage v now s) = backendWait_startTime s"
  "backendWait_baseMessage (updateDatabaseWaitMessage v now s) = backendWait_baseMessage s"
  "databaseWait_active (updateDatabaseWaitMessage v now s) = databaseWait_active s"
  "databaseWait_timerId (updateDatabaseWaitMessage v now s) = databaseWait_timerId s"
  "databaseWait_startTime (updateDatabaseWaitMessage v now s) = databaseWait_startTime s"
  "databaseWait_baseMessage (updateDatabaseWaitMessage v now s) = databaseWait_baseMessage s"
  "backendHealthCheckIntervalId (updateDatabaseWaitMessage v now s) = backendHealthCheckIntervalId s"
  "timers (updateDatabaseWaitMessage v now s) = timers s"
  "next_handle (updateDatabaseWaitMessage v now s) = next_handle s"
  by (simp_all add: updateDatabaseWaitMessage_def Let_def)

lemma startBackendWait_frame [simp]:
  "taskDepth (startBackendWait v now m s) = taskDepth s"
  "taskMessage (startBackendWait v now m s) = taskMessage s"
  "backend_active (startBackendWait v now m s) = True"
  "database_active (startBackendWait v now m s) = database_active s"
  "database_message (startBackendWait v now m s) = database_message s"
  "transient_active (startBackendWait v now m s) = transient_active s"
  "transient_message (startBackendWait v now m s) = transient_message s"
  "transient_timeoutId (startBackendWait v now m s) = transient_timeoutId s"
  "backendWait_active (startBackendWait v now m s) = True"
  "backendWait_timerId (startBackendWait v now m s) = (if backendWait_active s then backendWait_timerId s else Some (next_handle s))"
  "backendWait_startTime (startBackendWait v now m s) = (if backendWait_active s then backendWait_startTime s else Some now)"
  "backendWait_baseMessage (startBackendWait v now m s) = m"
  "databaseWait_active (startBackendWait v now m s) = databaseWait_active s"
  "databaseWait_timerId (startBackendWait v now m s) = databaseWait_timerId s"
  "databaseWait_startTime (startBackendWait v now m s) = databaseWait_startTime s"
  "databaseWait_baseMessage (startBackendWait v now m s) = databaseWait_baseMessage s"
  "backendHealthCheckIntervalId (startBackendWait v now m s) = backendHealthCheckIntervalId s"
  "timers (startBackendWait v now m s) = (if backendWait_active s then timers s else (timers s)(next_handle s \<mapsto> UpdateBackendWaitMessage))"
  "next_handle (startBackendWait v now m s) = (if backendWait_active s then next_handle s else next_handle s + 1)"
  by (simp_all add: startBackendWait_def updateBackendWaitMessage_def Let_def setTimer_def)

lemma startDatabaseWait_frame [simp]:
  "taskDepth (startDatabaseWait v now m s) = taskDepth s"
  "taskMessage (startDatabaseWait v now m s) = taskMessage s"
  "backend_active (startDatabaseWait v now m s) = backend_active s"
  "backend_message (startDatabaseWait v now m s) = backend_message s"
  "database_active (startDatabaseWait v now m s) = True"
  "transient_active (startDatabaseWait v now m s) = transient_active s"
  "transient_message (startDatabaseWait v now m s) = transient_message s"
  "transient_timeoutId (startDatabaseWait v now m s) = transient_timeoutId s"
  "backendWait_active (startDatabaseWait v now m s) = backendWait_active s"
  "backendWait_timerId (startDatabaseWait v now m s) = backendWait_timerId s"
  "backendWait_startTime (startDatabaseWait v now m s) = backendWait_startTime s"
  "backendWait_baseMessage (startDatabaseWait v now m s) = backendWait_baseMessage s"
  "databaseWait_active (startDatabaseWait v now m s) = True"
  "databaseWait_timerId (startDatabaseWait v now m s) = (if databaseWait_active s then databaseWait_timerId s else Some (next_handle s))"
  "databaseWait_startTime (startDatabaseWait v now m s) = (if databaseWait_active s then databaseWait_startTime s else Some now)"
  "databaseWait_baseMessage (startDatabaseWait v now m s) = m"
  "backendHealthCheckIntervalId (startDatabaseWait v now m s) = backendHealthCheckIntervalId s"
  "timers (startDatabaseWait v now m s) = (if databaseWait_active s then timers s else (timers s)(next_handle s \<mapsto> UpdateDatabaseWaitMessage))"
  "next_handle (startDatabaseWait v now m s) = (if databaseWait_active s then next_handle s else next_handle s + 1)"
  by (simp_all add: startDatabaseWait_def updateDatabaseWaitMessage_def Let_def setTimer_def)

lemma stopBackendWait_frame [simp]:
  "taskDepth (stopBackendWait v s) = taskDepth s"
  "taskMessage (stopBackendWait v s) = taskMessage s"
  "backend_active (stopBackendWait v s) = (\<not> backendWait_active s \<and> backend_active s)"
  "backend_message (stopBackendWait v s) = (if backendWait_active s then [] else backend_message s)"
  "database_active (stopBackendWait v s) = database_active s"
  "database_message (stopBackendWait v s) = database_message s"
  "transient_active (stopBackendWait v s) = transient_active s"
  "transient_message (stopBackendWait v s) = transient_message s"
  "transient_timeoutId (stopBackendWait v s) = transient_timeoutId s"
  "backendWait_active (stopBackendWait v s) = False"
  "backendWait_timerId (stopBackendWait v s) = (if backendWait_active s \<and> truthy (backendWait_timerId s) then None else backendWait_timerId s)"
  "backendWait_startTime (stopBackendWait v s) = backendWait_startTime s"
  "backendWait_baseMessage (stopBackendWait v s) = backendWait_baseMessage s"
  "databaseWait_active (stopBackendWait v s) = databaseWait_active s"
  "databaseWait_timerId (stopBackendWait v s) = databaseWait_timerId s"
  "databaseWait_startTime (stopBackendWait v s) = databaseWait_startTime s"
  "databaseWait_baseMessage (stopBackendWait v s) = databaseWait_baseMessage s"
  "backendHealthCheckIntervalId (stopBackendWait v s) = backendHealthCheckIntervalId s"
  "timers (stopBackendWait v s) = (if backendWait_active s \<and> truthy (backendWait_timerId s) then timers (clearTimer (backendWait_timerId s) s) else timers s)"
  "next_handle (stopBackendWait v s) = next_handle s"
  by (simp_all add: stopBackendWait_def Let_def split: option.splits)

lemma stopDatabaseWait_frame [simp]:
  "taskDepth (stopDatabaseWait v s) = taskDepth s"
  "taskMessage (stopDatabaseWait v s) = taskMessage s"
  "backend_active (stopDatabaseWait v s) = backend_active s"
  "backend_message (stopDatabaseWait v s) = backend_message s"
  "database_active (stopDatabaseWait v s) = (\<not> databaseWait_active s \<and> database_active s)"
  "database_message (stopDatabaseWait v s) = (if databaseWait_active s then [] else database_message s)"
  "transient_active (stopDatabaseWait v s) = transient_active s"
  "transient_message (stopDatabaseWait v s) = transient_message s"
  "transient_timeoutId (stopDatabaseWait v s) = transient_timeoutId s"
  "backendWait_active (stopDatabaseWait v s) = backendWait_active s"
  "backendWait_timerId (stopDatabaseWait v s) = backendWait_timerId s"
  "backendWait_startTime (stopDatabaseWait v s) = backendWait_startTime s"
  "backendWait_baseMessage (stopDatabaseWait v s) = backendWait_baseMessage s"
  "databaseWait_active (stopDatabaseWait v s) = False"
  "databaseWait_timerId (stopDatabaseWait v s) = (if databaseWait_active s \<and> truthy (databaseWait_timerId s) then None else databaseWait_timerId s)"
  "databaseWait_startTime (stopDatabaseWait v s) = databaseWait_startTime s"
  "databaseWait_baseMessage (stopDatabaseWait v s) = databaseWait_baseMessage s"
  "backendHealthCheckIntervalId (stopDatabaseWait v s) = backendHealthCheckIntervalId s"
  "timers (stopDatabaseWait v s) = (if databaseWait_active s \<and> truthy (databaseWait_timerId s) then timers (clearTimer (databaseWait_timerId s) s) else timers s)"
  "next_handle (stopDatabaseWait v s) = next_handle s"
  by (simp_all add: stopDatabaseWait_def Let_def split: option.splits)

lemma stopBackendRecoveryPolling_frame [simp]:
  "taskDepth (stopBackendRecoveryPolling s) = taskDepth s"
  "taskMessage (stopBackendRecoveryPolling s) = taskMessage s"
  "backend_active (stopBackendRecoveryPolling s) = backend_active s"
  "backend_message (stopBackendRecoveryPolling s) = backend_message s"
  "database_active (stopBackendRecoveryPolling s) = database_active s"
  "database_message (stopBackendRecoveryPolling s) = database_message s"
  "transient_active (stopBackendRecoveryPolling s) = transient_active s"
  "transient_message (stopBackendRecoveryPolling s) = transient_message s"
  "transient_timeoutId (stopBackendRecoveryPolling s) = transient_timeoutId s"
  "backendWait_active (stopBackendRecoveryPolling s) = backendWait_active s"
  "backendWait_timerId (stopBackendRecoveryPolling s) = backendWait_timerId s"
  "backendWait_startTime (stopBackendRecoveryPolling s) = backendWait_startTime s"
  "backendWait_baseMessage (stopBackendRecoveryPolling s) = backendWait_baseMessage s"
  "databaseWait_active (stopBackendRecoveryPolling s) = databaseWait_active s"
  "databaseWait_timerId (stopBackendRecoveryPolling s) = databaseWait_timerId s"
  "databaseWait_startTime (stopBackendRecoveryPolling s) = databaseWait_startTime s"
  "databaseWait_baseMessage (stopBackendRecoveryPolling s) = databaseWait_baseMessage s"
  "backendHealthCheckIntervalId (stopBackendRecoveryPolling s) = (if truthy (backendHealthCheckIntervalId s) then None else backendHealthCheckIntervalId s)"
  "overlay_hidden (stopBackendRecoveryPolling s) = overlay_hidden s"
  "overlayMessage (stopBackendRecoveryPolling s) = overlayMessage s"
  "timers (stopBackendRecoveryPolling s) = (if truthy (backendHealthCheckIntervalId s) then timers (clearTimer (backendHealthCheckIntervalId s) s) else timers s)"
  "next_handle (stopBackendRecoveryPolling s) = next_handle s"
  by (simp_all add: stopBackendRecoveryPolling_def)

lemma showTransientStatus_frame [simp]:
  "taskDepth (showTransientStatus v m d s) = taskDepth s"
  "taskMessage (showTransientStatus v m d s) = taskMessage s"
  "backend_active (showTransientStatus v m d s) = backend_active s"
  "backend_message (showTransientStatus v m d s) = backend_message s"
  "database_active (showTransientStatus v m d s) = database_active s"
  "database_message (showTransientStatus v m d s) = database_message s"
  "transient_active (showTransientStatus v m d s) = True"
  "transient_message (showTransientStatus v m d s) = m"
  "transient_timeoutId (showTransientStatus v m d s) = Some (next_handle s)"
  "backendWait_active (showTransientStatus v m d s) = backendWait_active s"
  "backendWait_timerId (showTransientStatus v m d s) = backendWait_timerId s"
  "backendWait_startTime (showTransientStatus v m d s) = backendWait_startTime s"
  "backendWait_baseMessage (showTransientStatus v m d s) = backendWait_baseMessage s"
  "databaseWait_active (showTransientStatus v m d s) = databaseWait_active s"
  "databaseWait_timerId (showTransientStatus v m d s) = databaseWait_timerId s"
  "databaseWait_startTime (showTransientStatus v m d s) = databaseWait_startTime s"
  "databaseWait_baseMessage (showTransientStatus v m d s) = databaseWait_baseMessage s"
  "backendHealthCheckIntervalId (showTransientStatus v m d s) = backendHealthCheckIntervalId s"
  "timers (showTransientStatus v m d s) = (if truthy (transient_timeoutId s) then timers (clearTimer (transient_timeoutId s) s) else timers s)(next_handle s \<mapsto> TransientExpire)"
  "next_handle (showTransientStatus v m d s) = next_handle s + 1"
  by (simp_all add: showTransientStatus_def Let_def setTimer_def)

lemma transient_expired_frame [simp]:
  "taskDepth (transient_expired v s) = taskDepth s"
  "taskMessage (transient_expired v s) = taskMessage s"
  "backend_active (transient_expired v s) = backend_active s"
  "backend_message (transient_expired v s) = backend_message s"
  "database_active (transient_expired v s) = database_active s"
  "database_message (transient_expired v s) = database_message s"
  "transient_active (transient_expired v s) = False"
  "transient_message (transient_expired v s) = transient_message s"
  "transient_timeoutId (transient_expired v s) = None"
  "backendWait_active (transient_expired v s) = backendWait_active s"
  "backendWait_timerId (transient_expired v s) = backendWait_timerId s"
  "backendWait_startTime (transient_expired v s) = backendWait_startTime s"
  "backendWait_baseMessage (transient_expired v s) = backendWait_baseMessage s"
  "databaseWait_active (transient_expired v s) = databaseWait_active s"
  "databaseWait_timerId (transient_expired v s) = databaseWait_timerId s"
  "databaseWait_startTime (transient_expired v s) = databaseWait_startTime s"
  "databaseWait_baseMessage (transient_expired v s) = databaseWait_baseMessage s"
  "backendHealthCheckIntervalId (transient_expired v s) = backendHealthCheckIntervalId s"
  "timers (transient_expired v s) = timers s"
  "next_handle (transient_expired v s) = next_handle s"
  by (simp_all add: transient_expired_def)

lemma table_register:
  assumes "table_consistent T C n" "C cb = None"
  shows "table_consistent (T(n \<mapsto> cb)) (C(cb := Some n)) (n + 1)"
  unfolding table_consistent_def
proof (intro conjI allI)
  show "0 < n + 1" by simp
next
  fix h cb'
  from assms have free: "T n = None"
    unfolding table_consistent_def by (cases "T n") fastforce+
  from assms have old: "T h = Some cb' \<longleftrightarrow> C cb' = Some h"
    unfolding table_consistent_def by blast
  from assms have bound: "T h = Some cb' \<longrightarrow> h < n"
    unfolding table_consistent_def by blast
  show "((T(n \<mapsto> cb)) h = Some cb') = ((C(cb := Some n)) cb' = Some h)"
    using free old bound assms(2) by (cases "h = n"; cases "cb' = cb") auto
  show "(T(n \<mapsto> cb)) h = Some cb' \<longrightarrow> 0 < h \<and> h < n + 1"
    using assms(1) unfolding table_consistent_def by (cases "h = n") (auto simp: less_Suc_eq)
qed

lemma table_clear:
  assumes "table_consistent T C n"
  shows "table_consistent (case C cb of None \<Rightarrow> T | Some h \<Rightarrow> T(h := None)) (C(cb := None)) n"
proof (cases "C cb")
  case None
  then have "C(cb := None) = C" by (auto simp: fun_upd_idem_iff)
  with None assms show ?thesis by simp
next
  case (Some k)
  have Tk: "T k = Some cb" using assms Some unfolding table_consistent_def by blast
  show ?thesis unfolding table_consistent_def Some option.case
  proof (intro conjI allI)
    show "0 < n" using assms unfolding table_consistent_def by blast
  next
    fix h cb'
    from assms have old: "T h = Some cb' \<longleftrightarrow> C cb' = Some h"
      unfolding table_consistent_def by blast
    show "((T(k := None)) h = Some cb') = ((C(cb := None)) cb' = Some h)"
      using old Tk Some by (cases "h = k"; cases "cb' = cb") auto
    show "(T(k := None)) h = Some cb' \<longrightarrow> 0 < h \<and> h < n"
      using assms unfolding table_consistent_def by (cases "h = k") auto
  qed
qed

lemma table_positive:
  "table_consistent T C n \<Longrightarrow> C cb = Some h \<Longrightarrow> h \<noteq> 0"
  unfolding table_consistent_def by (metis less_numeral_extra(3))

lemma stored_handle_simps [simp]:
  "stored_handle (refreshOverlay v s) = stored_handle s"
  "stored_handle (showLoading v m s) = stored_handle s"
  "stored_handle (hideLoading v s) = stored_handle s"
  "stored_handle (updateBackendWaitMessage v now s) = stored_handle s"
  "stored_handle (updateDatabaseWaitMessage v now s) = stored_handle s"
  by (rule ext, simp add: stored_handle_def split: timer_callback.splits)+

lemma timers_consistent_simps [simp]:
  "timers_consistent (refreshOverlay v s) = timers_consistent s"
  "timers_consistent (showLoading v m s) = timers_consistent s"
  "timers_consistent (hideLoading v s) = timers_consistent s"
  by (simp_all add: timers_consistent_def)

lemma tc_updateBackendWaitMessage:
  "timers_consistent s \<Longrightarrow> timers_consistent (updateBackendWaitMessage v now s)"
  by (auto simp: timers_consistent_def)

lemma tc_updateDatabaseWaitMessage:
  "timers_consistent s \<Longrightarrow> timers_consistent (updateDatabaseWaitMessage v now s)"
  by (auto simp: timers_consistent_def)

lemma stored_startBackendWait:
  "stored_handle (startBackendWait v now m s) =
     (if backendWait_active s then stored_handle s
      else (stored_handle s)(UpdateBackendWaitMessage := Some (next_handle s)))"
  by (rule ext) (simp add: stored_handle_def split: timer_callback.splits)

lemma stored_startDatabaseWait:
  "stored_handle (startDatabaseWait v now m s) =
     (if databaseWait_active s then stored_handle s
      else (stored_handle s)(UpdateDatabaseWaitMessage := Some (next_handle s)))"
  by (rule ext) (simp add: stored_handle_def split: timer_callback.splits)

lemma stored_stopBackendWait:
  "stored_handle (stopBackendWait v s) = (stored_handle s)(UpdateBackendWaitMessage := None)"
  by (rule ext) (simp add: stored_handle_def split: timer_callback.splits)

lemma stored_stopDatabaseWait:
  "stored_handle (stopDatabaseWait v s) = (stored_handle s)(UpdateDatabaseWaitMessage := None)"
  by (rule ext) (simp add: stored_handle_def split: timer_callback.splits)

lemma tc_startBackendWait:
  assumes "timers_consistent s"
  shows "timers_consistent (startBackendWait v now m s)"
proof (cases "backendWait_active s")
  case True
  with assms show ?thesis by (simp add: timers_consistent_def stored_startBackendWait)
next
  case False
  then have "stored_handle s UpdateBackendWaitMessage = None" by (simp add: stored_handle_def)
  with assms have "table_consistent ((timers s)(next_handle s \<mapsto> UpdateBackendWaitMessage))
      ((stored_handle s)(UpdateBackendWaitMessage := Some (next_handle s))) (next_handle s + 1)"
    unfolding timers_consistent_def by (intro table_register) auto
  with assms False show ?thesis by (simp add: timers_consistent_def stored_startBackendWait)
qed

lemma tc_startDatabaseWait:
  assumes "timers_consistent s"
  shows "timers_consistent (startDatabaseWait v now m s)"
proof (cases "databaseWait_active s")
  case True
  with assms show ?thesis by (simp add: timers_consistent_def stored_startDatabaseWait)
next
  case False
  then have "stored_handle s UpdateDatabaseWaitMessage = None" by (simp add: stored_handle_def)
  with assms have "table_consistent ((timers s)(next_handle s \<mapsto> UpdateDatabaseWaitMessage))
      ((stored_handle s)(UpdateDatabaseWaitMessage := Some (next_handle s))) (next_handle s + 1)"
    unfolding timers_consistent_def by (intro table_register) auto
  with assms False show ?thesis by (simp add: timers_consistent_def stored_startDatabaseWait)
qed

lemma timers_stopBackendWait:
  assumes "timers_consistent s"
  shows "timers (stopBackendWait v s) =
     (case stored_handle s UpdateBackendWaitMessage of None \<Rightarrow> timers s
      | Some h \<Rightarrow> (timers s)(h := None))"
proof (cases "stored_handle s UpdateBackendWaitMessage")
  case None
  then show ?thesis by (auto simp: stored_handle_def split: if_splits)
next
  case (Some h)
  with assms have "h \<noteq> 0" unfolding timers_consistent_def using table_positive by blast
  with Some show ?thesis by (auto simp: stored_handle_def split: if_splits)
qed

lemma timers_stopDatabaseWait:
  assumes "timers_consistent s"
  shows "timers (stopDatabaseWait v s) =
     (case stored_handle s UpdateDatabaseWaitMessage of None \<Rightarrow> timers s
      | Some h \<Rightarrow> (timers s)(h := None))"
proof (cases "stored_handle s UpdateDatabaseWaitMessage")
  case None
  then show ?thesis by (auto simp: stored_handle_def split: if_splits)
next
  case (Some h)
  with assms have "h \<noteq> 0" unfolding timers_consistent_def using table_positive by blast
  with Some show ?thesis by (auto simp: stored_handle_def split: if_splits)
qed

lemma tc_stopBackendWait:
  assumes "timers_consistent s"
  shows "timers_consistent (stopBackendWait v s)"
  unfolding timers_consistent_def stored_stopBackendWait timers_stopBackendWait[OF assms]
  using assms table_clear[of "timers s" "stored_handle s" "next_handle s" UpdateBackendWaitMessage]
  by (auto simp: timers_consistent_def)

lemma tc_stopDatabaseWait:
  assumes "timers_consistent s"
  shows "timers_consistent (stopDatabaseWait v s)"
  unfolding timers_consistent_def stored_stopDatabaseWait timers_stopDatabaseWait[OF assms]
  using assms table_clear[of "timers s" "stored_handle s" "next_handle s" UpdateDatabaseWaitMessage]
  by (auto simp: timers_consistent_def)

lemma stored_clear_health_check:
  "stored_handle ((clearTimer h s)\<lparr> backendHealthCheckIntervalId := None \<rparr>)
     = (stored_handle s)(HealthCheck := None)"
  by (rule ext) (simp add: stored_handle_def split: timer_callback.splits)

lemma tc_clear_health_check:
  assumes "timers_consistent s"
  shows "timers_consistent
     ((clearTimer (backendHealthCheckIntervalId s) s)\<lparr> backendHealthCheckIntervalId := None \<rparr>)"
proof -
  have "stored_handle s HealthCheck = backendHealthCheckIntervalId s"
    by (simp add: stored_handle_def)
  with assms table_clear[of "timers s" "stored_handle s" "next_handle s" HealthCheck]
  show ?thesis
    unfolding timers_consistent_def stored_clear_health_check by simp
qed

lemma truthy_health_check:
  assumes "timers_consistent s"
  shows "truthy (backendHealthCheckIntervalId s) \<longleftrightarrow> backendHealthCheckIntervalId s \<noteq> None"
proof (cases "backendHealthCheckIntervalId s")
  case None
  then show ?thesis by simp
next
  case (Some h)
  then have "stored_handle s HealthCheck = Some h" by (simp add: stored_handle_def)
  with assms have "h \<noteq> 0" unfolding timers_consistent_def using table_positive by blast
  with Some show ?thesis by simp
qed

lemma stopBackendRecoveryPolling_eq:
  assumes "timers_consistent s"
  shows "stopBackendRecoveryPolling s =
     (clearTimer (backendHealthCheckIntervalId s) s)\<lparr> backendHealthCheckIntervalId := None \<rparr>"
  using truthy_health_check[OF assms]
  by (cases "backendHealthCheckIntervalId s") (auto simp: stopBackendRecoveryPolling_def clearTimer_def)

lemma tc_stopBackendRecoveryPolling:
  assumes "timers_consistent s"
  shows "timers_consistent (stopBackendRecoveryPolling s)"
  unfolding stopBackendRecoveryPolling_eq[OF assms] using assms by (rule tc_clear_health_check)

lemma stored_register_health_check:
  "stored_handle ((snd (setTimer HealthCheck s))\<lparr> backendHealthCheckIntervalId := Some n \<rparr>)
     = (stored_handle s)(HealthCheck := Some n)"
  by (rule ext) (simp add: stored_handle_def split: timer_callback.splits)

lemma tc_register_health_check:
  assumes "timers_consistent s" "\<not> truthy (backendHealthCheckIntervalId s)"
  shows "timers_consistent
     ((snd (setTimer HealthCheck s))\<lparr> backendHealthCheckIntervalId := Some (fst (setTimer HealthCheck s)) \<rparr>)"
proof -
  from assms truthy_health_check[OF assms(1)]
  have "stored_handle s HealthCheck = None" by (simp add: stored_handle_def)
  with assms(1) have "table_consistent ((timers s)(next_handle s \<mapsto> HealthCheck))
      ((stored_handle s)(HealthCheck := Some (next_handle s))) (next_handle s + 1)"
    unfolding timers_consistent_def by (intro table_register) auto
  with assms(1) show ?thesis
    unfolding timers_consistent_def stored_register_health_check by simp
qed

lemma tc_beginBackendRecovery:
  assumes "timers_consistent s"
  shows "timers_consistent (beginBackendRecovery v now m s)"
proof -
  let ?s0 = "case v of Ping_check \<Rightarrow> s | Status_check \<Rightarrow> stopDatabaseWait v s"
  have "timers_consistent ?s0" using assms by (cases v) (simp_all add: tc_stopDatabaseWait)
  then have s1: "timers_consistent (startBackendWait v now m ?s0)" by (rule tc_startBackendWait)
  show ?thesis
  proof (cases "truthy (backendHealthCheckIntervalId (startBackendWait v now m ?s0))")
    case True
    then have "beginBackendRecovery v now m s = startBackendWait v now m ?s0"
      unfolding beginBackendRecovery_def Let_def by (simp only: if_True)
    with s1 show ?thesis by simp
  next
    case False
    then have "beginBackendRecovery v now m s =
       (snd (setTimer HealthCheck (startBackendWait v now m ?s0)))
         \<lparr> backendHealthCheckIntervalId := Some (fst (setTimer HealthCheck (startBackendWait v now m ?s0))) \<rparr>"
      unfolding beginBackendRecovery_def Let_def by (simp only: if_False split_beta)
    with tc_register_health_check[OF s1 False] show ?thesis by simp
  qed
qed

lemma tc_markBackendOnline:
  "timers_consistent s \<Longrightarrow> timers_consistent (markBackendOnline v s)"
  by (cases v) (simp_all add: markBackendOnline_def tc_stopBackendWait tc_stopBackendRecoveryPolling)

lemma stored_showTransientStatus:
  "stored_handle (showTransientStatus v m d s)
     = (stored_handle s)(TransientExpire := Some (next_handle s))"
  by (rule ext) (simp add: stored_handle_def split: timer_callback.splits)

lemma tc_showTransientStatus:
  assumes "timers_consistent s"
  shows "timers_consistent (showTransientStatus v m d s)"
proof -
  let ?T1 = "case stored_handle s TransientExpire of None \<Rightarrow> timers s
             | Some h \<Rightarrow> (timers s)(h := None)"
  let ?C1 = "(stored_handle s)(TransientExpire := None)"
  have c1: "table_consistent ?T1 ?C1 (next_handle s)"
    using assms unfolding timers_consistent_def by (intro table_clear) simp
  have "table_consistent (?T1(next_handle s \<mapsto> TransientExpire))
          (?C1(TransientExpire := Some (next_handle s))) (next_handle s + 1)"
    by (rule table_register[OF c1]) simp
  moreover have "timers (showTransientStatus v m d s) = ?T1(next_handle s \<mapsto> TransientExpire)"
  proof (cases "transient_timeoutId s")
    case None
    then show ?thesis by (simp add: stored_handle_def)
  next
    case (Some h)
    then have "stored_handle s TransientExpire = Some h" by (simp add: stored_handle_def)
    moreover from this assms have "h \<noteq> 0"
      unfolding timers_consistent_def using table_positive by blast
    ultimately show ?thesis using Some by simp
  qed
  ultimately show ?thesis
    using assms unfolding timers_consistent_def stored_showTransientStatus by simp
qed

lemma stored_transient_expired:
  "stored_handle (transient_expired v (s\<lparr> timers := T \<rparr>))
     = (stored_handle s)(TransientExpire := None)"
  by (rule ext) (simp add: stored_handle_def split: timer_callback.splits)

lemma tc_transient_expired:
  assumes "timers_consistent s" "timers s h = Some TransientExpire"
  shows "timers_consistent (transient_expired v (s\<lparr> timers := (timers s)(h := None) \<rparr>))"
proof -
  from assms have "stored_handle s TransientExpire = Some h"
    unfolding timers_consistent_def table_consistent_def by blast
  with assms(1) table_clear[of "timers s" "stored_handle s" "next_handle s" TransientExpire]
  show ?thesis unfolding timers_consistent_def stored_transient_expired by simp
qed

lemma tc_evaluateHealthStatus:
  "timers_consistent s \<Longrightarrow> timers_consistent (snd (evaluateHealthStatus v now m p s))"
  by (cases v; cases p)
     (simp_all add: evaluateHealthStatus_def pingBackend_def checkBackendStatus_def Let_def
        tc_beginBackendRecovery tc_markBackendOnline tc_startDatabaseWait tc_stopDatabaseWait
        tc_stopBackendRecoveryPolling)

lemma tc_health_check_callback:
  "timers_consistent s \<Longrightarrow> timers_consistent (health_check_callback v now p s)"
  by (cases v; cases p)
     (simp_all add: health_check_callback_def pingBackend_def checkBackendStatus_def Let_def
        tc_clear_health_check tc_markBackendOnline tc_startDatabaseWait tc_stopDatabaseWait
        tc_stopBackendRecoveryPolling)

lemma tc_request_settled:
  "timers_consistent s \<Longrightarrow> timers_consistent (snd (request_settled v now f s))"
  by (cases f)
     (simp_all add: request_settled_def Let_def tc_beginBackendRecovery tc_markBackendOnline)

lemma tc_step: "timers_consistent s \<Longrightarrow> timers_consistent (step v ev s)"
  by (cases ev)
     (auto simp: step_def tc_request_settled tc_evaluateHealthStatus tc_health_check_callback
        tc_updateBackendWaitMessage tc_updateDatabaseWaitMessage tc_transient_expired
        tc_showTransientStatus
        split: option.splits timer_callback.splits)

lemma tc_run: "timers_consistent s \<Longrightarrow> timers_consistent (run v evs s)"
  unfolding run_def by (induction evs arbitrary: s) (simp_all add: tc_step)

lemma tc_initial: "timers_consistent (initial_page hidden txt)"
  by (simp add: timers_consistent_def table_consistent_def stored_handle_def initial_page_def
        split: timer_callback.splits)

lemma shown_refreshOverlay: "shown (refreshOverlay v s) = priority_message v s"
  by (simp add: shown_def refreshOverlay_def priority_message_def)

lemma priority_refreshOverlay [simp]: "priority_message v (refreshOverlay v' s) = priority_message v s"
  by (simp add: priority_message_def)

lemma sync_refreshOverlay [simp]: "overlay_in_sync v (refreshOverlay v s)"
  by (simp add: overlay_in_sync_def shown_refreshOverlay)

lemma sync_simple [simp]:
  "overlay_in_sync v (showLoading v m s)"
  "overlay_in_sync v (hideLoading v s)"
  "overlay_in_sync v (showTransientStatus v m d s)"
  "overlay_in_sync v (transient_expired v s)"
  by (simp_all add: showLoading_def hideLoading_def showTransientStatus_def transient_expired_def
        Let_def split_beta)

lemma sync_update:
  "overlay_in_sync v s \<Longrightarrow> overlay_in_sync v (updateBackendWaitMessage v now s)"
  "overlay_in_sync v s \<Longrightarrow> overlay_in_sync v (updateDatabaseWaitMessage v now s)"
  by (simp_all add: updateBackendWaitMessage_def updateDatabaseWaitMessage_def Let_def)

lemma sync_wait:
  "overlay_in_sync v (startBackendWait v now m s)"
  "overlay_in_sync v (startDatabaseWait v now m s)"
  "overlay_in_sync v s \<Longrightarrow> overlay_in_sync v (stopBackendWait v s)"
  "overlay_in_sync v s \<Longrightarrow> overlay_in_sync v (stopDatabaseWait v s)"
  by (simp_all add: startBackendWait_def startDatabaseWait_def stopBackendWait_def
        stopDatabaseWait_def updateBackendWaitMessage_def updateDatabaseWaitMessage_def
        Let_def split_beta setTimer_def)

lemma sync_cong:
  assumes "overlay_hidden s' = overlay_hidden s" "overlayMessage s' = overlayMessage s"
    "taskDepth s' = taskDepth s" "taskMessage s' = taskMessage s"
    "backend_active s' = backend_active s" "backend_message s' = backend_message s"
    "database_active s' = database_active s" "database_message s' = database_message s"
    "transient_active s' = transient_active s" "transient_message s' = transient_message s"
  shows "overlay_in_sync v s' = overlay_in_sync v s"
  by (simp add: overlay_in_sync_def shown_def priority_message_def assms)

lemma sync_polling:
  "overlay_in_sync v (stopBackendRecoveryPolling s) = overlay_in_sync v s"
  "overlay_in_sync v ((clearTimer h s)\<lparr> backendHealthCheckIntervalId := None \<rparr>)
     = overlay_in_sync v s"
  by (rule sync_cong; simp)+

lemma sync_markBackendOnline:
  "overlay_in_sync v s \<Longrightarrow> overlay_in_sync v (markBackendOnline v s)"
  by (cases v) (simp_all add: markBackendOnline_def sync_wait sync_polling)

lemma sync_register:
  "overlay_in_sync v ((snd (setTimer cb s))\<lparr> backendHealthCheckIntervalId := i \<rparr>)
     = overlay_in_sync v s"
  by (rule sync_cong; simp)

lemma sync_beginBackendRecovery: "overlay_in_sync v (beginBackendRecovery v now m s)"
proof -
  let ?s1 = "startBackendWait v now m (case v of Ping_check \<Rightarrow> s | Status_check \<Rightarrow> stopDatabaseWait v s)"
  have s1: "overlay_in_sync v ?s1" by (rule sync_wait)
  show ?thesis
  proof (cases "truthy (backendHealthCheckIntervalId ?s1)")
    case True
    then have "beginBackendRecovery v now m s = ?s1"
      unfolding beginBackendRecovery_def Let_def by (simp only: if_True)
    with s1 show ?thesis by simp
  next
    case False
    then have "beginBackendRecovery v now m s =
       (snd (setTimer HealthCheck ?s1))\<lparr> backendHealthCheckIntervalId := Some (fst (setTimer HealthCheck ?s1)) \<rparr>"
      unfolding beginBackendRecovery_def Let_def by (simp only: if_False split_beta)
    with s1 show ?thesis by (simp only: sync_register)
  qed
qed

lemma sync_evaluateHealthStatus:
  "overlay_in_sync v s \<Longrightarrow> overlay_in_sync v (snd (evaluateHealthStatus v now m p s))"
  by (cases v; cases p)
     (simp_all add: evaluateHealthStatus_def pingBackend_def checkBackendStatus_def Let_def
        sync_beginBackendRecovery sync_markBackendOnline sync_wait sync_polling)

lemma sync_health_check_callback:
  "overlay_in_sync v s \<Longrightarrow> overlay_in_sync v (health_check_callback v now p s)"
  by (cases v; cases p)
     (simp_all add: health_check_callback_def pingBackend_def checkBackendStatus_def Let_def
        sync_markBackendOnline sync_wait sync_polling)

lemma sync_request_settled:
  "overlay_in_sync v s \<Longrightarrow> overlay_in_sync v (snd (request_settled v now f s))"
  by (cases f)
     (simp_all add: request_settled_def Let_def sync_beginBackendRecovery sync_markBackendOnline)

lemma sync_step: "overlay_in_sync v s \<Longrightarrow> overlay_in_sync v (step v ev s)"
  by (cases ev)
     (auto simp: step_def sync_request_settled sync_evaluateHealthStatus
        sync_health_check_callback sync_update
        split: option.splits timer_callback.splits)

lemma sync_run: "overlay_in_sync v s \<Longrightarrow> overlay_in_sync v (run v evs s)"
  unfolding run_def by (induction evs arbitrary: s) (simp_all add: sync_step)

lemma sync_initial: "overlay_in_sync v (initial_page True txt)"
  by (simp add: overlay_in_sync_def shown_def priority_message_def initial_page_def)

text \<open>
  C4 (amended). After every refresh the overlay shows exactly the message of the
  highest active level: the task message while \<open>taskDepth > 0\<close>, else the backend
  recovery message, else (in the revision with a database wait) the database message,
  else the transient message, else nothing. With a task and a recovery both active
  the task message is shown, and when the last task ends the recovery message is
  shown again. Every state reached from the initial page (overlay hidden) is in sync.
\<close>

theorem overlay_priority:
  "shown (refreshOverlay v s) = priority_message v s
   \<and> (taskDepth s > 0 \<and> backend_active s \<longrightarrow> shown (refreshOverlay v s) = Some (taskMessage s))
   \<and> (taskDepth s = 1 \<and> backend_active s \<longrightarrow> shown (hideLoading v s) = Some (backend_message s))
   \<and> shown (run v evs (initial_page True txt)) = priority_message v (run v evs (initial_page True txt))"
proof -
  have "shown (hideLoading v s) = priority_message v (s\<lparr> taskDepth := max 0 (taskDepth s - 1) \<rparr>)"
    by (simp add: hideLoading_def shown_refreshOverlay)
  moreover have "overlay_in_sync v (run v evs (initial_page True txt))"
    by (rule sync_run) (rule sync_initial)
  ultimately show ?thesis
    by (simp add: shown_refreshOverlay overlay_in_sync_def) (simp add: priority_message_def)
qed

theorem overlay_priority_witness:
  "0 < taskDepth task_during_outage \<and> backend_active task_during_outage
   \<and> shown (refreshOverlay Ping_check task_during_outage) = Some (taskMessage task_during_outage)
   \<and> taskDepth task_during_outage = 1
   \<and> shown (hideLoading Ping_check task_during_outage) = Some (backend_message task_during_outage)"
proof -
  have "taskDepth task_during_outage = 1 \<and> backend_active task_during_outage"
    by (simp add: task_during_outage_def run_def step_def request_settled_def
        beginBackendRecovery_def initial_page_def Let_def split_beta)
  then have "0 < taskDepth task_during_outage \<and> backend_active task_during_outage
      \<and> taskDepth task_during_outage = 1" by simp
  with overlay_priority[of Ping_check task_during_outage "[]" "[]"] show ?thesis by blast
qed

text \<open>
  C4 as stated fails in the revision with a database wait: after a health evaluation
  that finds the backend online and the database not ready, and a transient message,
  no task runs and no recovery is active, yet the overlay shows the database message,
  not the transient one.
\<close>

theorem overlay_database_before_transient:
  "taskDepth database_and_toast = 0
   \<and> \<not> backend_active database_and_toast
   \<and> transient_active database_and_toast
   \<and> transient_message database_and_toast = js ''Bad request''
   \<and> shown (refreshOverlay Status_check database_and_toast)
       = Some (waiting_for_database @ js '' 0s elapsed'')
   \<and> shown (refreshOverlay Status_check database_and_toast)
       \<noteq> Some (transient_message database_and_toast)"
  by (simp add: database_and_toast_def run_def step_def evaluateHealthStatus_def
        checkBackendStatus_def markBackendOnline_def initial_page_def shown_def
        refreshOverlay_def updateDatabaseWaitMessage_def startDatabaseWait_def
        stopBackendWait_def showTransientStatus_def setTimer_def elapsed_seconds_def
        show_int_def show_nat.simps waiting_for_database_def working_def js_def ellipsis_def
        Let_def)

lemma beginBackendRecovery_frame [simp]:
  "taskDepth (beginBackendRecovery v now m s) = taskDepth s"
  "taskMessage (beginBackendRecovery v now m s) = taskMessage s"
  "transient_active (beginBackendRecovery v now m s) = transient_active s"
  "transient_message (beginBackendRecovery v now m s) = transient_message s"
  "transient_timeoutId (beginBackendRecovery v now m s) = transient_timeoutId s"
  "backend_active (beginBackendRecovery v now m s) = True"
  "backendWait_active (beginBackendRecovery v now m s) = True"
  "backendWait_baseMessage (beginBackendRecovery v now m s) = m"
  "backendWait_startTime (beginBackendRecovery v now m s)
     = (if backendWait_active s then backendWait_startTime s else Some now)"
  "backendWait_timerId (beginBackendRecovery v now m s)
     = (if backendWait_active s then backendWait_timerId s
        else Some (next_handle (case v of Ping_check \<Rightarrow> s | Status_check \<Rightarrow> stopDatabaseWait v s)))"
  by (cases v; simp add: beginBackendRecovery_def Let_def split_beta)+

lemma beginBackendRecovery_registered:
  "truthy (backendHealthCheckIntervalId s) \<Longrightarrow>
     backendHealthCheckIntervalId (beginBackendRecovery v now m s) = backendHealthCheckIntervalId s"
  by (cases v; simp add: beginBackendRecovery_def Let_def split_beta)

lemma beginBackendRecovery_fresh:
  "\<not> truthy (backendHealthCheckIntervalId s) \<Longrightarrow>
     backendHealthCheckIntervalId (beginBackendRecovery v now m s)
       = Some (next_handle (startBackendWait v now m
            (case v of Ping_check \<Rightarrow> s | Status_check \<Rightarrow> stopDatabaseWait v s)))"
  by (cases v; simp add: beginBackendRecovery_def Let_def split_beta)

lemma markBackendOnline_frame [simp]:
  "taskDepth (markBackendOnline v s) = taskDepth s"
  "taskMessage (markBackendOnline v s) = taskMessage s"
  "transient_active (markBackendOnline v s) = transient_active s"
  "transient_message (markBackendOnline v s) = transient_message s"
  "transient_timeoutId (markBackendOnline v s) = transient_timeoutId s"
  "backendWait_active (markBackendOnline v s) = False"
  "backend_active (markBackendOnline v s) = (\<not> backendWait_active s \<and> backend_active s)"
  "database_active (markBackendOnline v s) = database_active s"
  "database_message (markBackendOnline v s) = database_message s"
  "databaseWait_active (markBackendOnline v s) = databaseWait_active s"
  "databaseWait_timerId (markBackendOnline v s) = databaseWait_timerId s"
  "databaseWait_startTime (markBackendOnline v s) = databaseWait_startTime s"
  "databaseWait_baseMessage (markBackendOnline v s) = databaseWait_baseMessage s"
  by (cases v; simp add: markBackendOnline_def)+

lemma taskDepth_handlers [simp]:
  "taskDepth (snd (request_settled v now f s)) = taskDepth s"
  "taskDepth (snd (evaluateHealthStatus v now m p s)) = taskDepth s"
  "taskDepth (health_check_callback v now p s) = taskDepth s"
    apply (cases f; simp add: request_settled_def Let_def)
   apply (cases v; cases p; simp add: evaluateHealthStatus_def pingBackend_def
            checkBackendStatus_def Let_def)
  apply (cases v; cases p; simp add: health_check_callback_def pingBackend_def
            checkBackendStatus_def Let_def)
  done

lemma taskDepth_step_nonneg: "0 \<le> taskDepth s \<Longrightarrow> 0 \<le> taskDepth (step v ev s)"
  by (cases ev) (auto simp: step_def split: option.splits timer_callback.splits)

lemma taskDepth_run_nonneg: "0 \<le> taskDepth s \<Longrightarrow> 0 \<le> taskDepth (run v evs s)"
  unfolding run_def by (induction evs arbitrary: s) (simp_all add: taskDepth_step_nonneg)

lemma taskDepth_runTask:
  "taskDepth (runTask v m task s) = max 0 (taskDepth (snd (task (showLoading v m s))) - 1)"
  by (cases "fst (task (showLoading v m s))")
     (simp_all add: runTask_def Let_def split_beta)

text \<open>
  C7. \<open>showLoading\<close> adds one to \<open>taskDepth\<close>; \<open>hideLoading\<close> subtracts one but
  never goes below 0. \<open>runTask\<close> calls \<open>showLoading\<close> once before the task and
  \<open>hideLoading\<close> once after it, whether the task returns or throws, so a task that
  leaves the depth alone leaves \<open>runTask\<close> with the depth it started from. From the
  initial page, and from any state with a non-negative depth, no sequence of events
  (extra \<open>hideLoading\<close> calls included) makes the depth negative.
\<close>

theorem taskDepth_balanced:
  "taskDepth (showLoading v m s) = taskDepth s + 1
   \<and> taskDepth (hideLoading v s) = max 0 (taskDepth s - 1)
   \<and> 0 \<le> taskDepth (hideLoading v s)
   \<and> taskDepth (runTask v m task s) = max 0 (taskDepth (snd (task (showLoading v m s))) - 1)
   \<and> (0 \<le> taskDepth s \<and> taskDepth (snd (task (showLoading v m s))) = taskDepth (showLoading v m s)
        \<longrightarrow> taskDepth (runTask v m task s) = taskDepth s)
   \<and> 0 \<le> taskDepth (run v evs (initial_page hidden txt))
   \<and> (0 \<le> taskDepth s \<longrightarrow> 0 \<le> taskDepth (run v evs s))"
proof -
  have "0 \<le> taskDepth (run v evs (initial_page hidden txt))"
    by (rule taskDepth_run_nonneg) (simp add: initial_page_def)
  then show ?thesis
    using taskDepth_run_nonneg[of s v evs] by (simp add: taskDepth_runTask)
qed

theorem taskDepth_balanced_witness:
  "0 \<le> taskDepth (initial_page True [])
   \<and> taskDepth (snd (failing_task (showLoading Ping_check working (initial_page True []))))
       = taskDepth (showLoading Ping_check working (initial_page True []))
   \<and> taskDepth (runTask Ping_check working failing_task (initial_page True []))
       = taskDepth (initial_page True [])
   \<and> 0 \<le> taskDepth (run Ping_check [Hide_loading, Hide_loading] (initial_page True []))
   \<and> taskDepth (run Ping_check [Hide_loading, Show_loading working, Hide_loading, Hide_loading]
         (initial_page True [])) = 0"
proof -
  have a: "0 \<le> taskDepth (initial_page True [])" by (simp add: initial_page_def)
  have b: "taskDepth (snd (failing_task (showLoading Ping_check working (initial_page True []))))
       = taskDepth (showLoading Ping_check working (initial_page True []))"
    by (simp add: failing_task_def)
  have c: "taskDepth (run Ping_check [Hide_loading, Show_loading working, Hide_loading, Hide_loading]
         (initial_page True [])) = 0"
    by (simp add: run_def step_def initial_page_def)
  from taskDepth_balanced[of Ping_check working "initial_page True []" failing_task
      "[Hide_loading, Hide_loading]" True "[]"] a b c
  show ?thesis by blast
qed

lemma backend_message_startBackendWait:
  "backend_message (startBackendWait v now m s) =
     m @ js '' '' @ show_int (elapsed_seconds now
           (if backendWait_active s then backendWait_startTime s else Some now))
       @ js ''s / ~'' @ show_int BACKEND_ESTIMATED_SPINUP_SECONDS @ js ''s''"
  by (simp add: startBackendWait_def updateBackendWaitMessage_def Let_def setTimer_def)

lemma backendWait_step:
  assumes "backendWait_active s" "\<not> reports_online ev"
  shows "backendWait_active (step v ev s)
       \<and> backendWait_startTime (step v ev s) = backendWait_startTime s
       \<and> backendWait_timerId (step v ev s) = backendWait_timerId s"
proof (cases ev)
  case (Request_settled now f)
  with assms show ?thesis
    by (cases f) (simp_all add: step_def request_settled_def Let_def)
next
  case (Health_evaluated now prefix p)
  with assms show ?thesis
    by (cases p; cases v)
       (simp_all add: step_def evaluateHealthStatus_def pingBackend_def checkBackendStatus_def
          Let_def)
next
  case (Health_check_answered now p)
  with assms show ?thesis
    by (cases p; cases v)
       (simp_all add: step_def health_check_callback_def pingBackend_def checkBackendStatus_def
          Let_def)
next
  case (Timer_fired now h)
  with assms show ?thesis
    by (auto simp: step_def split: option.splits timer_callback.splits)
qed (use assms in \<open>simp_all add: step_def\<close>)

lemma backendWait_run:
  assumes "backendWait_active s" "\<forall>ev\<in>set evs. \<not> reports_online ev"
  shows "backendWait_active (run v evs s)
       \<and> backendWait_startTime (run v evs s) = backendWait_startTime s
       \<and> backendWait_timerId (run v evs s) = backendWait_timerId s"
  using assms unfolding run_def
proof (induction evs arbitrary: s)
  case Nil
  then show ?case by simp
next
  case (Cons ev evs)
  from backendWait_step[of s ev v] Cons.prems
  have st: "backendWait_active (step v ev s)"
    "backendWait_startTime (step v ev s) = backendWait_startTime s"
    "backendWait_timerId (step v ev s) = backendWait_timerId s" by auto
  from Cons.IH[of "step v ev s"] st Cons.prems(2) show ?case by simp
qed

text \<open>
  C6. When the backend wait is already active, \<open>startBackendWait\<close> (and
  \<open>beginBackendRecovery\<close>, which calls it) replaces the message prefix and leaves the
  start time, the tick timer and the timer table alone; the message shows the seconds
  elapsed since that start time. Only an inactive wait gets a new start time. Over any
  sequence of events in which the backend never answers with a 2xx status, an active
  wait stays active with the start time of its first entry.
\<close>

theorem backend_wait_clock_kept:
  "(backendWait_active s \<longrightarrow>
      backendWait_startTime (startBackendWait v now m s) = backendWait_startTime s
    \<and> backendWait_timerId (startBackendWait v now m s) = backendWait_timerId s
    \<and> timers (startBackendWait v now m s) = timers s
    \<and> backendWait_baseMessage (startBackendWait v now m s) = m
    \<and> backend_message (startBackendWait v now m s) =
        m @ js '' '' @ show_int (elapsed_seconds now (backendWait_startTime s))
          @ js ''s / ~'' @ show_int 50 @ js ''s''
    \<and> backendWait_startTime (beginBackendRecovery v now m s) = backendWait_startTime s)
   \<and> (\<not> backendWait_active s \<longrightarrow>
         backendWait_startTime (startBackendWait v now m s) = Some now)
   \<and> (backendWait_active s \<and> (\<forall>ev\<in>set evs. \<not> reports_online ev) \<longrightarrow>
         backendWait_active (run v evs s)
       \<and> backendWait_startTime (run v evs s) = backendWait_startTime s
       \<and> backendWait_timerId (run v evs s) = backendWait_timerId s)"
  using backendWait_run[of s evs v]
  by (simp add: backend_message_startBackendWait BACKEND_ESTIMATED_SPINUP_SECONDS_def)

theorem backend_wait_clock_kept_witness:
  "backendWait_active first_failure
   \<and> backendWait_startTime first_failure = Some 5000
   \<and> \<not> reports_online (Request_settled 6000 Fetch_failed)
   \<and> backendWait_startTime (run Ping_check [Request_settled 6000 Fetch_failed] first_failure)
       = Some 5000
   \<and> backendWait_startTime (startBackendWait Ping_check 6000 issue_detected first_failure)
       = Some 5000
   \<and> backend_message (startBackendWait Ping_check 6000 issue_detected first_failure)
       = issue_detected @ js '' 1s / ~50s''
   \<and> \<not> backendWait_active (initial_page True [])
   \<and> backendWait_startTime (startBackendWait Ping_check 5000 waking_up (initial_page True []))
       = Some 5000"
proof -
  have a: "backendWait_active first_failure \<and> backendWait_startTime first_failure = Some 5000"
    by (simp add: first_failure_def run_def step_def request_settled_def initial_page_def)
  have b: "\<forall>ev\<in>set [Request_settled 6000 Fetch_failed]. \<not> reports_online ev" by simp
  have c: "\<not> backendWait_active (initial_page True [])" by (simp add: initial_page_def)
  have d: "show_int (elapsed_seconds 6000 (Some 5000)) = js ''1''" "show_int 50 = js ''50''"
    by (simp_all add: show_int_def elapsed_seconds_def show_nat.simps js_def)
  from backend_wait_clock_kept[of first_failure Ping_check 6000 issue_detected
      "[Request_settled 6000 Fetch_failed]"]
    backend_wait_clock_kept[of "initial_page True []" Ping_check 5000 waking_up "[]"]
    a b c d
  show ?thesis by (simp add: js_def)
qed

lemma no_timer_of_unstored:
  assumes "timers_consistent s" "stored_handle s cb = None"
  shows "timers s h \<noteq> Some cb"
  using assms unfolding timers_consistent_def table_consistent_def by auto

lemma one_timer_of_stored:
  assumes "timers_consistent s"
  shows "timers s h = Some cb \<longleftrightarrow> stored_handle s cb = Some h"
  using assms unfolding timers_consistent_def table_consistent_def by auto

lemma health_check_id_markBackendOnline:
  assumes "timers_consistent s"
  shows "backendHealthCheckIntervalId (markBackendOnline Ping_check s) = None"
  using stopBackendRecoveryPolling_eq[OF tc_stopBackendWait[OF assms, of Ping_check]]
  by (simp add: markBackendOnline_def)

lemma health_check_id_polling_stopped:
  assumes "timers_consistent s"
  shows "backendHealthCheckIntervalId (stopBackendRecoveryPolling s) = None"
  using stopBackendRecoveryPolling_eq[OF assms] by simp

lemma online_step_backend:
  assumes "reports_online ev"
  shows "\<not> backendWait_active (step v ev s)"
proof (cases ev)
  case (Request_settled now f)
  with assms show ?thesis
    by (cases f) (simp_all add: step_def request_settled_def Let_def)
next
  case (Health_evaluated now prefix p)
  with assms show ?thesis
    by (cases p; cases v)
       (simp_all add: step_def evaluateHealthStatus_def pingBackend_def checkBackendStatus_def
          Let_def)
next
  case (Health_check_answered now p)
  with assms show ?thesis
    by (cases p; cases v)
       (simp_all add: step_def health_check_callback_def pingBackend_def checkBackendStatus_def
          Let_def)
qed (use assms in simp_all)

lemma online_step_ping_id:
  assumes "timers_consistent s" "reports_online ev"
  shows "backendHealthCheckIntervalId (step Ping_check ev s) = None"
proof (cases ev)
  case (Request_settled now f)
  with assms show ?thesis
    by (cases f)
       (simp_all add: step_def request_settled_def Let_def health_check_id_markBackendOnline)
next
  case (Health_evaluated now prefix p)
  with assms show ?thesis
    by (cases p)
       (simp_all add: step_def evaluateHealthStatus_def pingBackend_def Let_def
          health_check_id_markBackendOnline)
next
  case (Health_check_answered now p)
  with assms show ?thesis
    by (cases p) (simp_all add: step_def health_check_callback_def pingBackend_def Let_def)
qed (use assms in simp_all)

lemma ready_step_status:
  assumes "timers_consistent s" "reports_ready ev"
  shows "\<not> databaseWait_active (step Status_check ev s)
       \<and> \<not> database_active (step Status_check ev s)
       \<and> backendHealthCheckIntervalId (step Status_check ev s) = None"
proof -
  have "timers_consistent (markBackendOnline Status_check s)"
    using assms(1) by (rule tc_markBackendOnline)
  from truthy_health_check[OF this]
  have id: "truthy (backendHealthCheckIntervalId (markBackendOnline Status_check s))
      \<or> backendHealthCheckIntervalId (markBackendOnline Status_check s) = None" by blast
  have db: "\<not> database_active s \<or> databaseWait_active s"
    using assms(1) by (auto simp: timers_consistent_def)
  show ?thesis
  proof (cases ev)
    case (Health_evaluated now prefix p)
    with assms(2) db id show ?thesis
      by (cases p)
         (auto simp: step_def evaluateHealthStatus_def checkBackendStatus_def Let_def)
  next
    case (Health_check_answered now p)
    with assms(2) db id show ?thesis
      by (cases p)
         (auto simp: step_def health_check_callback_def checkBackendStatus_def Let_def)
  qed (use assms in simp_all)
qed

lemma request_ok_status_frame:
  assumes "resp_ok r"
  shows "databaseWait_active (step Status_check (Request_settled now (Fetch_response r)) s)
           = databaseWait_active s
       \<and> database_active (step Status_check (Request_settled now (Fetch_response r)) s)
           = database_active s
       \<and> backendHealthCheckIntervalId (step Status_check (Request_settled now (Fetch_response r)) s)
           = backendHealthCheckIntervalId s
       \<and> databaseWait_timerId (step Status_check (Request_settled now (Fetch_response r)) s)
           = databaseWait_timerId s"
  using assms by (simp add: step_def request_settled_def Let_def markBackendOnline_def)

lemma beginBackendRecovery_database:
  "databaseWait_active (beginBackendRecovery v now m s) = (v = Ping_check \<and> databaseWait_active s)"
  "databaseWait_timerId (beginBackendRecovery v now m s)
     = (case v of Ping_check \<Rightarrow> databaseWait_timerId s
        | Status_check \<Rightarrow> databaseWait_timerId (stopDatabaseWait v s))"
  by (cases v; simp add: beginBackendRecovery_def Let_def split_beta)+

lemma markBackendOnline_status_id:
  "backendHealthCheckIntervalId (markBackendOnline Status_check s) = backendHealthCheckIntervalId s"
  by (simp add: markBackendOnline_def)

lemma databaseWait_timed_step:
  assumes "databaseWait_timed s"
  shows "databaseWait_timed (step v ev s)"
proof (cases ev)
  case (Request_settled now f)
  with assms show ?thesis
    by (cases f; cases v)
       (simp_all add: databaseWait_timed_def step_def request_settled_def Let_def
          beginBackendRecovery_database)
next
  case (Health_evaluated now prefix p)
  with assms show ?thesis
    by (cases p; cases v)
       (simp_all add: databaseWait_timed_def step_def evaluateHealthStatus_def pingBackend_def
          checkBackendStatus_def Let_def beginBackendRecovery_database)
next
  case (Health_check_answered now p)
  with assms show ?thesis
    by (cases p; cases v)
       (simp_all add: databaseWait_timed_def step_def health_check_callback_def pingBackend_def
          checkBackendStatus_def Let_def)
next
  case (Timer_fired now h)
  with assms show ?thesis
    by (auto simp: databaseWait_timed_def step_def split: option.splits timer_callback.splits)
qed (use assms in \<open>simp_all add: databaseWait_timed_def step_def\<close>)

lemma databaseWait_timed_run: "databaseWait_timed s \<Longrightarrow> databaseWait_timed (run v evs s)"
  unfolding run_def by (induction evs arbitrary: s) (simp_all add: databaseWait_timed_step)

lemma databaseWait_timed_initial: "databaseWait_timed (initial_page hidden txt)"
  by (simp add: databaseWait_timed_def initial_page_def)

lemma not_ready_step_status:
  assumes "reports_not_ready ev"
  shows "databaseWait_active (step Status_check ev s)
       \<and> database_active (step Status_check ev s)
       \<and> backendHealthCheckIntervalId (step Status_check ev s) = backendHealthCheckIntervalId s"
proof (cases ev)
  case (Health_evaluated now prefix p)
  with assms show ?thesis
    by (cases p)
       (simp_all add: step_def evaluateHealthStatus_def checkBackendStatus_def Let_def
          markBackendOnline_status_id)
next
  case (Health_check_answered now p)
  with assms show ?thesis
    by (cases p)
       (simp_all add: step_def health_check_callback_def checkBackendStatus_def Let_def
          markBackendOnline_status_id)
qed (use assms in simp_all)

text \<open>
  The database wait is not stopped by a ready probe alone: in the \<open>Status_check\<close>
  revision \<open>beginBackendRecovery\<close> starts with \<open>stopDatabaseWait()\<close>, so a transport
  failure, a failed probe and an answer with status 500 or more stop it too.
\<close>

lemma failure_stops_database_wait:
  "\<not> databaseWait_active (step Status_check (Request_settled now Fetch_failed) s)"
  "\<not> databaseWait_active (step Status_check (Health_evaluated now prefix Probe_failed) s)"
  "500 \<le> resp_status r \<Longrightarrow>
     \<not> databaseWait_active (step Status_check (Request_settled now (Fetch_response r)) s)"
  by (simp_all add: step_def request_settled_def evaluateHealthStatus_def checkBackendStatus_def
      Let_def beginBackendRecovery_database resp_ok_def)

text \<open>
  C5 (amended). In every reachable state, one event in which the backend answers a
  request or a probe with a 2xx status leaves the backend wait inactive, its overlay
  part inactive and no tick timer of it alive. In the \<open>Ping_check\<close> revision the
  health-check interval is cleared as well. In the \<open>Status_check\<close> revision a probe
  that reports the database ready leaves the database wait inactive, its overlay part
  inactive, no tick timer of it alive and the health-check interval cleared; a probe
  that reports the backend online and the database not ready leaves the database wait
  active with its overlay part and a tick timer of it, and the health-check interval
  as it was; a successful request leaves the database wait, its overlay part, its tick
  timer and the health-check interval as they were.
\<close>

theorem success_clears_recovery:
  assumes "s = run v evs (initial_page hidden txt)" and "reports_online ev"
  shows "\<not> backendWait_active (step v ev s) \<and> \<not> backend_active (step v ev s)
       \<and> timers (step v ev s) h \<noteq> Some UpdateBackendWaitMessage
       \<and> (v = Ping_check \<longrightarrow>
            backendHealthCheckIntervalId (step v ev s) = None
          \<and> timers (step v ev s) h \<noteq> Some HealthCheck)
       \<and> (v = Status_check \<and> reports_ready ev \<longrightarrow>
            \<not> databaseWait_active (step v ev s) \<and> \<not> database_active (step v ev s)
          \<and> backendHealthCheckIntervalId (step v ev s) = None
          \<and> timers (step v ev s) h \<noteq> Some UpdateDatabaseWaitMessage
          \<and> timers (step v ev s) h \<noteq> Some HealthCheck)
       \<and> (v = Status_check \<and> reports_not_ready ev \<longrightarrow>
            databaseWait_active (step v ev s) \<and> database_active (step v ev s)
          \<and> (\<exists>k. timers (step v ev s) k = Some UpdateDatabaseWaitMessage)
          \<and> backendHealthCheckIntervalId (step v ev s) = backendHealthCheckIntervalId s
          \<and> (timers (step v ev s) h = Some HealthCheck) = (timers s h = Some HealthCheck))
       \<and> (v = Status_check \<and> ev = Request_settled now (Fetch_response r) \<longrightarrow>
            databaseWait_active (step v ev s) = databaseWait_active s
          \<and> database_active (step v ev s) = database_active s
          \<and> backendHealthCheckIntervalId (step v ev s) = backendHealthCheckIntervalId s
          \<and> (timers (step v ev s) h = Some UpdateDatabaseWaitMessage)
              = (timers s h = Some UpdateDatabaseWaitMessage)
          \<and> (timers (step v ev s) h = Some HealthCheck) = (timers s h = Some HealthCheck))"
proof -
  have tc: "timers_consistent s" unfolding assms(1) by (rule tc_run) (rule tc_initial)
  then have tc': "timers_consistent (step v ev s)" by (rule tc_step)
  have timed: "databaseWait_timed (step v ev s)"
    unfolding assms(1)
    by (intro databaseWait_timed_step databaseWait_timed_run databaseWait_timed_initial)
  have off: "\<not> backendWait_active (step v ev s)" using assms(2) by (rule online_step_backend)
  then have "stored_handle (step v ev s) UpdateBackendWaitMessage = None"
    by (simp add: stored_handle_def)
  then have a: "timers (step v ev s) h \<noteq> Some UpdateBackendWaitMessage"
    using tc' no_timer_of_unstored by blast
  have b: "\<not> backend_active (step v ev s)" using tc' off by (auto simp: timers_consistent_def)
  have c: "v = Ping_check \<longrightarrow> backendHealthCheckIntervalId (step v ev s) = None
          \<and> timers (step v ev s) h \<noteq> Some HealthCheck"
  proof
    assume v: "v = Ping_check"
    then have id: "backendHealthCheckIntervalId (step v ev s) = None"
      using online_step_ping_id[OF tc assms(2)] by simp
    then have "stored_handle (step v ev s) HealthCheck = None" by (simp add: stored_handle_def)
    with id tc' no_timer_of_unstored
    show "backendHealthCheckIntervalId (step v ev s) = None
          \<and> timers (step v ev s) h \<noteq> Some HealthCheck" by blast
  qed
  have d: "v = Status_check \<and> reports_ready ev \<longrightarrow>
            \<not> databaseWait_active (step v ev s) \<and> \<not> database_active (step v ev s)
          \<and> backendHealthCheckIntervalId (step v ev s) = None
          \<and> timers (step v ev s) h \<noteq> Some UpdateDatabaseWaitMessage
          \<and> timers (step v ev s) h \<noteq> Some HealthCheck"
  proof
    assume v: "v = Status_check \<and> reports_ready ev"
    with ready_step_status[OF tc, of ev]
    have r: "\<not> databaseWait_active (step v ev s)" "\<not> database_active (step v ev s)"
      "backendHealthCheckIntervalId (step v ev s) = None" by auto
    then have "stored_handle (step v ev s) UpdateDatabaseWaitMessage = None"
      "stored_handle (step v ev s) HealthCheck = None" by (simp_all add: stored_handle_def)
    with r tc' no_timer_of_unstored
    show "\<not> databaseWait_active (step v ev s) \<and> \<not> database_active (step v ev s)
          \<and> backendHealthCheckIntervalId (step v ev s) = None
          \<and> timers (step v ev s) h \<noteq> Some UpdateDatabaseWaitMessage
          \<and> timers (step v ev s) h \<noteq> Some HealthCheck" by blast
  qed
  have hc: "(timers (step v ev s) h = Some HealthCheck) = (timers s h = Some HealthCheck)"
    if "backendHealthCheckIntervalId (step v ev s) = backendHealthCheckIntervalId s"
    using that one_timer_of_stored[OF tc, of h HealthCheck]
      one_timer_of_stored[OF tc', of h HealthCheck]
    by (simp add: stored_handle_def)
  have e: "v = Status_check \<and> reports_not_ready ev \<longrightarrow>
            databaseWait_active (step v ev s) \<and> database_active (step v ev s)
          \<and> (\<exists>k. timers (step v ev s) k = Some UpdateDatabaseWaitMessage)
          \<and> backendHealthCheckIntervalId (step v ev s) = backendHealthCheckIntervalId s
          \<and> (timers (step v ev s) h = Some HealthCheck) = (timers s h = Some HealthCheck)"
  proof
    assume v: "v = Status_check \<and> reports_not_ready ev"
    with not_ready_step_status[of ev s]
    have r: "databaseWait_active (step v ev s)" "database_active (step v ev s)"
      "backendHealthCheckIntervalId (step v ev s) = backendHealthCheckIntervalId s" by auto
    from timed r(1) obtain k where "databaseWait_timerId (step v ev s) = Some k"
      unfolding databaseWait_timed_def by blast
    with r(1) have "stored_handle (step v ev s) UpdateDatabaseWaitMessage = Some k"
      by (simp add: stored_handle_def)
    with one_timer_of_stored[OF tc', of k UpdateDatabaseWaitMessage]
    have "timers (step v ev s) k = Some UpdateDatabaseWaitMessage" by simp
    with r hc show "databaseWait_active (step v ev s) \<and> database_active (step v ev s)
          \<and> (\<exists>k. timers (step v ev s) k = Some UpdateDatabaseWaitMessage)
          \<and> backendHealthCheckIntervalId (step v ev s) = backendHealthCheckIntervalId s
          \<and> (timers (step v ev s) h = Some HealthCheck) = (timers s h = Some HealthCheck)"
      by blast
  qed
  have f: "v = Status_check \<and> ev = Request_settled now (Fetch_response r) \<longrightarrow>
            databaseWait_active (step v ev s) = databaseWait_active s
          \<and> database_active (step v ev s) = database_active s
          \<and> backendHealthCheckIntervalId (step v ev s) = backendHealthCheckIntervalId s
          \<and> (timers (step v ev s) h = Some UpdateDatabaseWaitMessage)
              = (timers s h = Some UpdateDatabaseWaitMessage)
          \<and> (timers (step v ev s) h = Some HealthCheck) = (timers s h = Some HealthCheck)"
  proof
    assume v: "v = Status_check \<and> ev = Request_settled now (Fetch_response r)"
    with assms(2) have ok: "resp_ok r" by simp
    from request_ok_status_frame[OF ok, of now s] v
    have fr: "databaseWait_active (step v ev s) = databaseWait_active s"
      "database_active (step v ev s) = database_active s"
      "backendHealthCheckIntervalId (step v ev s) = backendHealthCheckIntervalId s"
      "databaseWait_timerId (step v ev s) = databaseWait_timerId s" by simp_all
    then have "stored_handle (step v ev s) UpdateDatabaseWaitMessage
        = stored_handle s UpdateDatabaseWaitMessage" by (simp add: stored_handle_def)
    with one_timer_of_stored[OF tc, of h UpdateDatabaseWaitMessage]
      one_timer_of_stored[OF tc', of h UpdateDatabaseWaitMessage]
    have "(timers (step v ev s) h = Some UpdateDatabaseWaitMessage)
              = (timers s h = Some UpdateDatabaseWaitMessage)" by simp
    with fr hc show "databaseWait_active (step v ev s) = databaseWait_active s
          \<and> database_active (step v ev s) = database_active s
          \<and> backendHealthCheckIntervalId (step v ev s) = backendHealthCheckIntervalId s
          \<and> (timers (step v ev s) h = Some UpdateDatabaseWaitMessage)
              = (timers s h = Some UpdateDatabaseWaitMessage)
          \<and> (timers (step v ev s) h = Some HealthCheck) = (timers s h = Some HealthCheck)"
      by blast
  qed
  from off a b c d e f show ?thesis by blast
qed

theorem success_clears_recovery_witness:
  "reports_online (Request_settled 1000 (Fetch_response ok_response))
   \<and> \<not> backendWait_active (step Ping_check (Request_settled 1000 (Fetch_response ok_response)) ping_outage)
   \<and> \<not> backend_active (step Ping_check (Request_settled 1000 (Fetch_response ok_response)) ping_outage)
   \<and> backendHealthCheckIntervalId
        (step Ping_check (Request_settled 1000 (Fetch_response ok_response)) ping_outage) = None
   \<and> timers (step Ping_check (Request_settled 1000 (Fetch_response ok_response)) ping_outage) 2
        \<noteq> Some HealthCheck
   \<and> backendWait_active ping_outage \<and> backendHealthCheckIntervalId ping_outage = Some 2
   \<and> reports_online (Health_check_answered 10000 (Probe_ok True))
   \<and> reports_ready (Health_check_answered 10000 (Probe_ok True))
   \<and> \<not> databaseWait_active (step Status_check (Health_check_answered 10000 (Probe_ok True)) status_outage)
   \<and> backendHealthCheckIntervalId
        (step Status_check (Health_check_answered 10000 (Probe_ok True)) status_outage) = None
   \<and> reports_online (Health_check_answered 10000 (Probe_ok False))
   \<and> reports_not_ready (Health_check_answered 10000 (Probe_ok False))
   \<and> \<not> backendWait_active (step Status_check (Health_check_answered 10000 (Probe_ok False)) status_outage)
   \<and> databaseWait_active (step Status_check (Health_check_answered 10000 (Probe_ok False)) status_outage)
   \<and> database_active (step Status_check (Health_check_answered 10000 (Probe_ok False)) status_outage)
   \<and> (\<exists>k. timers (step Status_check (Health_check_answered 10000 (Probe_ok False)) status_outage) k
          = Some UpdateDatabaseWaitMessage)
   \<and> backendHealthCheckIntervalId
        (step Status_check (Health_check_answered 10000 (Probe_ok False)) status_outage)
       = backendHealthCheckIntervalId status_outage
   \<and> backendHealthCheckIntervalId status_outage = Some 2
   \<and> databaseWait_active
        (step Status_check (Request_settled 1000 (Fetch_response ok_response)) status_outage)
        = databaseWait_active status_outage"
proof -
  have a: "reports_online (Request_settled 1000 (Fetch_response ok_response))"
    by (simp add: ok_response_def resp_ok_def)
  have b: "reports_online (Health_check_answered 10000 (Probe_ok True))"
    "reports_ready (Health_check_answered 10000 (Probe_ok True))"
    "reports_online (Health_check_answered 10000 (Probe_ok False))"
    "reports_not_ready (Health_check_answered 10000 (Probe_ok False))" by simp_all
  have c: "backendWait_active ping_outage \<and> backendHealthCheckIntervalId ping_outage = Some 2"
    by (simp add: ping_outage_def run_def step_def request_settled_def initial_page_def
        beginBackendRecovery_fresh)
  have d: "backendHealthCheckIntervalId status_outage = Some 2"
    by (simp add: status_outage_def run_def step_def request_settled_def initial_page_def
        beginBackendRecovery_fresh)
  from success_clears_recovery[of ping_outage Ping_check "[Request_settled 0 Fetch_failed]"
      True "[]" "Request_settled 1000 (Fetch_response ok_response)" 2 1000 ok_response]
    success_clears_recovery[of status_outage Status_check "[Request_settled 0 Fetch_failed]"
      True "[]" "Health_check_answered 10000 (Probe_ok True)" 2 1000 ok_response]
    success_clears_recovery[of status_outage Status_check "[Request_settled 0 Fetch_failed]"
      True "[]" "Health_check_answered 10000 (Probe_ok False)" 2 1000 ok_response]
    success_clears_recovery[of status_outage Status_check "[Request_settled 0 Fetch_failed]"
      True "[]" "Request_settled 1000 (Fetch_response ok_response)" 2 1000 ok_response]
    a b c d
  show ?thesis by (simp add: ping_outage_def status_outage_def)
qed

text \<open>
  C5 as stated fails in the \<open>Status_check\<close> revision: after an outage and a probe
  that found the backend online but the database not ready, a request that completes
  with status 200 leaves the database wait active, its tick timer alive and the
  health-check interval registered.
\<close>

theorem database_wait_survives_request:
  "reports_online (Request_settled 12000 (Fetch_response ok_response))
   \<and> databaseWait_active
        (step Status_check (Request_settled 12000 (Fetch_response ok_response)) database_not_ready)
   \<and> database_active
        (step Status_check (Request_settled 12000 (Fetch_response ok_response)) database_not_ready)
   \<and> backendHealthCheckIntervalId
        (step Status_check (Request_settled 12000 (Fetch_response ok_response)) database_not_ready)
       = Some 2
   \<and> timers
        (step Status_check (Request_settled 12000 (Fetch_response ok_response)) database_not_ready) 2
       = Some HealthCheck
   \<and> timers
        (step Status_check (Request_settled 12000 (Fetch_response ok_response)) database_not_ready) 3
       = Some UpdateDatabaseWaitMessage"
  by (simp add: database_not_ready_def run_def step_def request_settled_def
        health_check_callback_def checkBackendStatus_def markBackendOnline_def
        beginBackendRecovery_def initial_page_def ok_response_def resp_ok_def
        Let_def split_beta)

lemma health_check_id_step:
  assumes "timers_consistent s" "backendHealthCheckIntervalId s = Some k" "\<not> reports_online ev"
  shows "backendHealthCheckIntervalId (step v ev s) = Some k"
proof -
  from assms(1,2) truthy_health_check[OF assms(1)]
  have tr: "truthy (backendHealthCheckIntervalId s)" by simp
  have tr': "truthy (backendHealthCheckIntervalId (stopDatabaseWait v s))" using tr by simp
  show ?thesis
  proof (cases ev)
    case (Request_settled now f)
    with assms tr show ?thesis
      by (cases f)
         (simp_all add: step_def request_settled_def Let_def beginBackendRecovery_registered)
  next
    case (Health_evaluated now prefix p)
    with assms tr show ?thesis
      by (cases p; cases v)
         (simp_all add: step_def evaluateHealthStatus_def pingBackend_def checkBackendStatus_def
            Let_def beginBackendRecovery_registered)
  next
    case (Health_check_answered now p)
    with assms show ?thesis
      by (cases p; cases v)
         (simp_all add: step_def health_check_callback_def pingBackend_def
            checkBackendStatus_def Let_def)
  next
    case (Timer_fired now h)
    with assms show ?thesis
      by (auto simp: step_def split: option.splits timer_callback.splits)
  qed (use assms in \<open>simp_all add: step_def\<close>)
qed

lemma health_check_id_run:
  assumes "timers_consistent s" "backendHealthCheckIntervalId s = Some k"
    "\<forall>ev\<in>set fs. \<not> reports_online ev"
  shows "backendHealthCheckIntervalId (run v fs s) = Some k"
  using assms unfolding run_def
proof (induction fs arbitrary: s)
  case Nil
  then show ?case by simp
next
  case (Cons ev fs)
  have "timers_consistent (step v ev s)" using Cons.prems(1) by (rule tc_step)
  moreover have "backendHealthCheckIntervalId (step v ev s) = Some k"
    using health_check_id_step[of s k ev v] Cons.prems by simp
  ultimately show ?case using Cons.IH[of "step v ev s"] Cons.prems(3) by simp
qed

lemma one_health_check:
  assumes "timers_consistent s"
  shows "timers s h = Some HealthCheck \<longleftrightarrow> backendHealthCheckIntervalId s = Some h"
  using one_timer_of_stored[OF assms, of h HealthCheck] by (simp add: stored_handle_def)

text \<open>
  C10. In every reachable state the timer table holds a health-check interval under a
  handle exactly if \<open>backendHealthCheckIntervalId\<close> stores that handle, so at most
  one exists. \<open>beginBackendRecovery\<close> keeps a registered handle and registers a fresh
  one only when none is stored; afterwards there is exactly one. \<open>markBackendOnline\<close>
  of the \<open>Ping_check\<close> revision clears the handle and its interval. While no event
  reports the backend online, the one interval of the outage stays registered.
\<close>

theorem one_health_check_interval:
  assumes "s = run v evs (initial_page hidden txt)"
  shows "(timers s h = Some HealthCheck \<and> timers s h' = Some HealthCheck \<longrightarrow> h = h')
       \<and> (timers s h = Some HealthCheck) = (backendHealthCheckIntervalId s = Some h)
       \<and> (backendHealthCheckIntervalId s = Some k \<longrightarrow>
            backendHealthCheckIntervalId (beginBackendRecovery v now m s) = Some k
          \<and> timers (beginBackendRecovery v now m s) k = Some HealthCheck
          \<and> (timers (beginBackendRecovery v now m s) h = Some HealthCheck \<longrightarrow> h = k))
       \<and> (backendHealthCheckIntervalId s = None \<longrightarrow>
            (\<exists>n. backendHealthCheckIntervalId (beginBackendRecovery v now m s) = Some n
               \<and> timers s n = None
               \<and> timers (beginBackendRecovery v now m s) n = Some HealthCheck))
       \<and> (timers (beginBackendRecovery v now m s) h = Some HealthCheck
            \<and> timers (beginBackendRecovery v now m s) h' = Some HealthCheck \<longrightarrow> h = h')
       \<and> (v = Ping_check \<longrightarrow>
            backendHealthCheckIntervalId (markBackendOnline v s) = None
          \<and> timers (markBackendOnline v s) h \<noteq> Some HealthCheck)
       \<and> (backendHealthCheckIntervalId s = Some k \<and> (\<forall>ev\<in>set fs. \<not> reports_online ev) \<longrightarrow>
            backendHealthCheckIntervalId (run v fs s) = Some k
          \<and> timers (run v fs s) k = Some HealthCheck
          \<and> (timers (run v fs s) h = Some HealthCheck \<longrightarrow> h = k))"
proof -
  have tc: "timers_consistent s" unfolding assms by (rule tc_run) (rule tc_initial)
  note hc = one_health_check[OF tc]
  have tcb: "timers_consistent (beginBackendRecovery v now m s)"
    using tc by (rule tc_beginBackendRecovery)
  note hcb = one_health_check[OF tcb]
  have a: "timers s h = Some HealthCheck \<and> timers s h' = Some HealthCheck \<longrightarrow> h = h'"
    using hc[of h] hc[of h'] by auto
  have b: "(timers s h = Some HealthCheck) = (backendHealthCheckIntervalId s = Some h)"
    by (rule hc)
  have c: "backendHealthCheckIntervalId s = Some k \<longrightarrow>
            backendHealthCheckIntervalId (beginBackendRecovery v now m s) = Some k
          \<and> timers (beginBackendRecovery v now m s) k = Some HealthCheck
          \<and> (timers (beginBackendRecovery v now m s) h = Some HealthCheck \<longrightarrow> h = k)"
  proof
    assume k: "backendHealthCheckIntervalId s = Some k"
    with truthy_health_check[OF tc] have "truthy (backendHealthCheckIntervalId s)" by simp
    then have "backendHealthCheckIntervalId (beginBackendRecovery v now m s) = Some k"
      using k by (simp add: beginBackendRecovery_registered)
    then show "backendHealthCheckIntervalId (beginBackendRecovery v now m s) = Some k
          \<and> timers (beginBackendRecovery v now m s) k = Some HealthCheck
          \<and> (timers (beginBackendRecovery v now m s) h = Some HealthCheck \<longrightarrow> h = k)"
      using hcb[of k] hcb[of h] by auto
  qed
  have d: "backendHealthCheckIntervalId s = None \<longrightarrow>
            (\<exists>n. backendHealthCheckIntervalId (beginBackendRecovery v now m s) = Some n
               \<and> timers s n = None
               \<and> timers (beginBackendRecovery v now m s) n = Some HealthCheck)"
  proof
    assume n: "backendHealthCheckIntervalId s = None"
    let ?s1 = "startBackendWait v now m
            (case v of Ping_check \<Rightarrow> s | Status_check \<Rightarrow> stopDatabaseWait v s)"
    from n have id: "backendHealthCheckIntervalId (beginBackendRecovery v now m s)
        = Some (next_handle ?s1)"
      by (simp add: beginBackendRecovery_fresh)
    have "next_handle s \<le> next_handle ?s1" by (cases v) simp_all
    moreover have "\<forall>cb. timers s (next_handle ?s1) = Some cb \<longrightarrow> next_handle ?s1 < next_handle s"
      using tc unfolding timers_consistent_def table_consistent_def by blast
    ultimately have free: "timers s (next_handle ?s1) = None"
      by (cases "timers s (next_handle ?s1)") auto
    from id hcb[of "next_handle ?s1"] free
    show "\<exists>n. backendHealthCheckIntervalId (beginBackendRecovery v now m s) = Some n
               \<and> timers s n = None
               \<and> timers (beginBackendRecovery v now m s) n = Some HealthCheck"
      by blast
  qed
  have e: "timers (beginBackendRecovery v now m s) h = Some HealthCheck
            \<and> timers (beginBackendRecovery v now m s) h' = Some HealthCheck \<longrightarrow> h = h'"
    using hcb[of h] hcb[of h'] by auto
  have f: "v = Ping_check \<longrightarrow>
            backendHealthCheckIntervalId (markBackendOnline v s) = None
          \<and> timers (markBackendOnline v s) h \<noteq> Some HealthCheck"
  proof
    assume v: "v = Ping_check"
    have "timers_consistent (markBackendOnline v s)" using tc by (rule tc_markBackendOnline)
    from one_health_check[OF this, of h] health_check_id_markBackendOnline[OF tc] v
    show "backendHealthCheckIntervalId (markBackendOnline v s) = None
          \<and> timers (markBackendOnline v s) h \<noteq> Some HealthCheck" by simp
  qed
  have g: "backendHealthCheckIntervalId s = Some k \<and> (\<forall>ev\<in>set fs. \<not> reports_online ev) \<longrightarrow>
            backendHealthCheckIntervalId (run v fs s) = Some k
          \<and> timers (run v fs s) k = Some HealthCheck
          \<and> (timers (run v fs s) h = Some HealthCheck \<longrightarrow> h = k)"
  proof
    assume k: "backendHealthCheckIntervalId s = Some k \<and> (\<forall>ev\<in>set fs. \<not> reports_online ev)"
    then have id: "backendHealthCheckIntervalId (run v fs s) = Some k"
      using health_check_id_run[OF tc, of k fs v] by simp
    have "timers_consistent (run v fs s)" using tc by (rule tc_run)
    from one_health_check[OF this, of k] one_health_check[OF this, of h] id
    show "backendHealthCheckIntervalId (run v fs s) = Some k
          \<and> timers (run v fs s) k = Some HealthCheck
          \<and> (timers (run v fs s) h = Some HealthCheck \<longrightarrow> h = k)" by auto
  qed
  from a b c d e f g show ?thesis by blast
qed

theorem one_health_check_interval_witness:
  "backendHealthCheckIntervalId ping_outage = Some 2
   \<and> timers ping_outage 2 = Some HealthCheck
   \<and> backendHealthCheckIntervalId (beginBackendRecovery Ping_check 1000 waking_up ping_outage) = Some 2
   \<and> timers (beginBackendRecovery Ping_check 1000 waking_up ping_outage) 2 = Some HealthCheck
   \<and> backendHealthCheckIntervalId (run Ping_check [] (initial_page True [])) = None
   \<and> (\<exists>n. backendHealthCheckIntervalId
              (beginBackendRecovery Ping_check 0 waking_up (run Ping_check [] (initial_page True [])))
              = Some n
          \<and> timers (run Ping_check [] (initial_page True [])) n = None
          \<and> timers (beginBackendRecovery Ping_check 0 waking_up
                (run Ping_check [] (initial_page True []))) n = Some HealthCheck)
   \<and> backendHealthCheckIntervalId (markBackendOnline Ping_check ping_outage) = None
   \<and> \<not> reports_online (Request_settled 1000 Fetch_failed)
   \<and> \<not> reports_online (Request_settled 2000 (Fetch_response server_error))
   \<and> \<not> reports_online (Health_check_answered 10000 Probe_failed)
   \<and> backendHealthCheckIntervalId
        (run Ping_check [Request_settled 1000 Fetch_failed,
                         Request_settled 2000 (Fetch_response server_error),
                         Health_check_answered 10000 Probe_failed] ping_outage) = Some 2
   \<and> timers
        (run Ping_check [Request_settled 1000 Fetch_failed,
                         Request_settled 2000 (Fetch_response server_error),
                         Health_check_answered 10000 Probe_failed] ping_outage) 2 = Some HealthCheck"
proof -
  let ?fs = "[Request_settled 1000 Fetch_failed,
              Request_settled 2000 (Fetch_response server_error),
              Health_check_answered 10000 Probe_failed]"
  have a: "backendHealthCheckIntervalId ping_outage = Some 2"
    by (simp add: ping_outage_def run_def step_def request_settled_def initial_page_def
        beginBackendRecovery_fresh)
  have b: "backendHealthCheckIntervalId (run Ping_check [] (initial_page True [])) = None"
    by (simp add: run_def initial_page_def)
  have c: "\<not> reports_online (Request_settled 1000 Fetch_failed)"
    "\<not> reports_online (Request_settled 2000 (Fetch_response server_error))"
    "\<not> reports_online (Health_check_answered 10000 Probe_failed)"
    by (simp_all add: server_error_def resp_ok_def)
  then have d: "\<forall>ev\<in>set ?fs. \<not> reports_online ev" by simp
  from one_health_check_interval[of ping_outage Ping_check "[Request_settled 0 Fetch_failed]"
      True "[]" 2 2 2 1000 waking_up ?fs]
    one_health_check_interval[of "run Ping_check [] (initial_page True [])" Ping_check "[]"
      True "[]" 2 2 2 0 waking_up "[]"]
    a b c d
  show ?thesis by (simp add: ping_outage_def)
qed

section \<open>Properties of the request gateway\<close>

lemma four_bit_cases:
  fixes w :: "4 word"
  shows "w \<in> {0, 1, 2, 3, 4, 5, 6, 7, 8, 9, 10, 11, 12, 13, 14, 15}"
proof -
  have "unat w < 2 ^ LENGTH(4)" by (rule unsigned_less)
  then have "unat w < 16" by simp
  then have "unat w \<in> {0, 1, 2, 3, 4, 5, 6, 7, 8, 9, 10, 11, 12, 13, 14, 15}"
    unfolding insert_iff empty_iff by presburger
  moreover have "w = of_nat (unat w)" by simp
  ultimately show ?thesis
    by (metis (no_types, lifting) insertE insertI1 insertI2 of_nat_numeral
        semiring_1_class.of_nat_0 of_nat_1 singletonD)
qed

lemma is_hex_hex_digit: "is_hex (hex_digit v)"
  using four_bit_cases[of v] by (auto simp: hex_digit_def is_hex_def)

lemma variant_digit: "hex_digit (v AND 3 OR 8) \<in> {0x38, 0x39, 0x61, 0x62}"
  using four_bit_cases[of v] by (auto simp: hex_digit_def)

lemma is_hex_four: "is_hex 0x34"
  by (simp add: is_hex_def)

lemma generateUUID_shaped: "uuid_v4_shaped (fst (generateUUID rs))"
  by (simp add: generateUUID_def js_def uuid_v4_shaped_def Let_def is_hex_hex_digit
        is_hex_four variant_digit[simplified])

lemma replace_xy_source:
  "snd (replace_xy cs rs) = (\<lambda>n. rs (n + length (filter (\<lambda>c. c = 0x78 \<or> c = 0x79) cs)))"
  by (induction cs arbitrary: rs) (simp_all add: Let_def)

lemma generateUUID_source: "snd (generateUUID rs) = (\<lambda>n. rs (n + 31))"
proof -
  have "length (filter (\<lambda>c. c = 0x78 \<or> c = 0x79) (js ''xxxxxxxx-xxxx-4xxx-yxxx-xxxxxxxxxxxx''))
      = 31"
    by (simp add: js_def)
  then show ?thesis unfolding generateUUID_def replace_xy_source by (simp only:)
qed

lemma header_names [simp]:
  "js ''X-User-ID'' \<noteq> js ''Idempotency-Key''" "js ''X-User-ID'' \<noteq> js ''Content-Type''"
  "js ''Idempotency-Key'' \<noteq> js ''Content-Type''"
  "js ''Idempotency-Key'' \<noteq> js ''X-User-ID''" "js ''Content-Type'' \<noteq> js ''X-User-ID''"
  "js ''Content-Type'' \<noteq> js ''Idempotency-Key''"
  by (simp_all add: js_def)

lemma request_config_method:
  "cfg_method (fst (request_config_of gw uid options rs)) =
     (case opt_method options of None \<Rightarrow> js ''GET'' | Some m \<Rightarrow> if m = [] then js ''GET'' else m)"
  by (simp add: request_config_of_def Let_def split: option.splits)

lemma request_config_user_id:
  "gw \<noteq> No_identity \<Longrightarrow>
   cfg_headers (fst (request_config_of gw uid options rs)) (js ''X-User-ID'') = Some uid"
  by (simp add: request_config_of_def Let_def split: option.splits)

lemma request_config_key:
  assumes "toUpperCase (cfg_method (fst (request_config_of User_id_and_idempotency_key uid options rs)))
             \<in> set idempotentMethods"
  shows "cfg_headers (fst (request_config_of User_id_and_idempotency_key uid options rs))
           (js ''Idempotency-Key'') = Some (fst (generateUUID rs))
       \<and> snd (request_config_of User_id_and_idempotency_key uid options rs) = snd (generateUUID rs)"
  using assms unfolding request_config_method
  by (simp add: request_config_of_def Let_def split: option.splits)

lemma getOrSetUserId_stored:
  "fst (snd (getOrSetUserId st rs)) USER_ID_KEY = Some (fst (getOrSetUserId st rs))
   \<and> fst (getOrSetUserId st rs) \<noteq> []"
proof -
  have "length (fst (generateUUID rs)) = 36"
    using generateUUID_shaped[of rs] by (simp add: uuid_v4_shaped_def)
  then have "fst (generateUUID rs) \<noteq> []" by auto
  then show ?thesis
    by (auto simp: getOrSetUserId_def Let_def split: option.splits)
qed

lemma getOrSetUserId_stable:
  "getOrSetUserId (fst (snd (getOrSetUserId st rs))) rs2
     = (fst (getOrSetUserId st rs), fst (snd (getOrSetUserId st rs)), rs2)"
  using getOrSetUserId_stored[of st rs]
  by (simp add: getOrSetUserId_def[of "fst (snd (getOrSetUserId st rs))"])

lemma getOrSetUserId_generated:
  "st USER_ID_KEY = None \<or> st USER_ID_KEY = Some [] \<Longrightarrow>
     fst (getOrSetUserId st rs) = fst (generateUUID rs)"
  by (auto simp: getOrSetUserId_def Let_def)

text \<open>
  C8 (amended). In the revisions of \<open>request\<close> that know the client identity, every
  config carries \<open>X-User-ID\<close> with the value of \<open>USER_ID\<close>, whatever headers the caller
  passed. In the revision with idempotency keys, a config whose upper-cased method is
  POST, PUT, DELETE or PATCH carries an \<open>Idempotency-Key\<close> that is the UUID generated
  from the next 31 draws of the random source, which the call consumes. Every
  generated UUID has the version-4 shape. \<open>getOrSetUserId\<close> leaves its result in
  local storage, returns the same id on every later call without drawing, and returns
  a UUID of that shape when storage had no id.
\<close>

theorem request_headers:
  "(gw \<noteq> No_identity \<longrightarrow>
      cfg_headers (fst (request_config_of gw uid options rs)) (js ''X-User-ID'') = Some uid)
   \<and> (toUpperCase (cfg_method (fst (request_config_of User_id_and_idempotency_key uid options rs)))
         \<in> set idempotentMethods \<longrightarrow>
       cfg_headers (fst (request_config_of User_id_and_idempotency_key uid options rs))
           (js ''Idempotency-Key'') = Some (fst (generateUUID rs))
     \<and> snd (request_config_of User_id_and_idempotency_key uid options rs) = (\<lambda>n. rs (n + 31)))
   \<and> uuid_v4_shaped (fst (generateUUID rs))
   \<and> snd (generateUUID rs) = (\<lambda>n. rs (n + 31))
   \<and> fst (snd (getOrSetUserId st rs)) USER_ID_KEY = Some (fst (getOrSetUserId st rs))
   \<and> getOrSetUserId (fst (snd (getOrSetUserId st rs))) rs2
       = (fst (getOrSetUserId st rs), fst (snd (getOrSetUserId st rs)), rs2)
   \<and> (st USER_ID_KEY = None \<or> st USER_ID_KEY = Some [] \<longrightarrow>
        uuid_v4_shaped (fst (getOrSetUserId st rs)))"
  using request_config_user_id[of gw uid options rs]
    request_config_key[of uid options rs]
    generateUUID_shaped[of rs] generateUUID_source[of rs]
    getOrSetUserId_stored[of st rs] getOrSetUserId_stable[of st rs rs2]
    getOrSetUserId_generated[of st rs]
  by auto

theorem request_headers_witness:
  "User_id_and_idempotency_key \<noteq> No_identity
   \<and> cfg_headers (fst (request_config_of User_id_and_idempotency_key (js ''user-1'') post_node
          counting_source)) (js ''X-User-ID'') = Some (js ''user-1'')
   \<and> toUpperCase (cfg_method (fst (request_config_of User_id_and_idempotency_key (js ''user-1'')
          post_node counting_source))) \<in> set idempotentMethods
   \<and> cfg_headers (fst (request_config_of User_id_and_idempotency_key (js ''user-1'') post_node
          counting_source)) (js ''Idempotency-Key'')
       = Some (js ''01234567-89ab-4cde-b012-3456789abcde'')
   \<and> (Map.empty :: jsstring \<rightharpoonup> jsstring) USER_ID_KEY = None
   \<and> uuid_v4_shaped (fst (getOrSetUserId Map.empty counting_source))"
proof -
  have a: "toUpperCase (cfg_method (fst (request_config_of User_id_and_idempotency_key
      (js ''user-1'') post_node counting_source))) \<in> set idempotentMethods"
    by (simp add: request_config_method post_node_def toUpperCase_def idempotentMethods_def js_def)
  have b: "fst (generateUUID counting_source) = js ''01234567-89ab-4cde-b012-3456789abcde''"
    by (simp add: generateUUID_def counting_source_def hex_digit_def js_def Let_def)
  have c: "(Map.empty :: jsstring \<rightharpoonup> jsstring) USER_ID_KEY = None" by simp
  have d: "User_id_and_idempotency_key \<noteq> No_identity" by simp
  note T = request_headers[of User_id_and_idempotency_key "js ''user-1''" post_node
      counting_source Map.empty counting_source]
  from T d have e: "cfg_headers (fst (request_config_of User_id_and_idempotency_key
      (js ''user-1'') post_node counting_source)) (js ''X-User-ID'') = Some (js ''user-1'')"
    by blast
  from T a have "cfg_headers (fst (request_config_of User_id_and_idempotency_key (js ''user-1'')
      post_node counting_source)) (js ''Idempotency-Key'') = Some (fst (generateUUID counting_source))"
    by blast
  then have f: "cfg_headers (fst (request_config_of User_id_and_idempotency_key (js ''user-1'')
      post_node counting_source)) (js ''Idempotency-Key'')
       = Some (js ''01234567-89ab-4cde-b012-3456789abcde'')"
    by (simp only: b)
  from T c have g: "uuid_v4_shaped (fst (getOrSetUserId Map.empty counting_source))" by blast
  from a c d e f g show ?thesis by blast
qed

text \<open>
  C8 as stated fails for the revision of \<open>request\<close> in src/script.js: a POST built
  there has neither an \<open>X-User-ID\<close> nor an \<open>Idempotency-Key\<close> header. The revision
  of src/unnamed/part_000 attaches the identity but no idempotency key.
\<close>

theorem request_without_identity_headers:
  "toUpperCase (cfg_method (fst (request_config_of No_identity (js ''user-1'') post_node
       counting_source))) \<in> set idempotentMethods
   \<and> cfg_headers (fst (request_config_of No_identity (js ''user-1'') post_node counting_source))
        (js ''X-User-ID'') = None
   \<and> cfg_headers (fst (request_config_of No_identity (js ''user-1'') post_node counting_source))
        (js ''Idempotency-Key'') = None
   \<and> cfg_headers (fst (request_config_of User_id_only (js ''user-1'') post_node counting_source))
        (js ''Idempotency-Key'') = None"
  by (simp add: request_config_of_def post_node_def toUpperCase_def idempotentMethods_def
        js_def Let_def)

end
